theory Spec2Isabelle
  imports Main
begin

section \<open>The authorized-origin validator of the dashboard\<close>

text \<open>
  The function under study is \<^verbatim>\<open>validateUrl\<close> of
  \<^verbatim>\<open>src/client/www/components/dash/AppAuth.tsx\<close> (inside \<^verbatim>\<open>AuthorizedOriginsForm\<close>).
  It takes the text typed by the user and the selected service kind and returns either
  \<^verbatim>\<open>{ type: 'error', message }\<close> or \<^verbatim>\<open>{ type: 'success', params }\<close>.
\<close>

subsection \<open>Values\<close>

text \<open>
  The two shapes of the returned object, tagged as in the source by \<^verbatim>\<open>type\<close>:
  \<open>error\<close> carries the \<^verbatim>\<open>message\<close> and \<open>success\<close> the \<^verbatim>\<open>params\<close>.
\<close>

datatype validated = error string | success "string list"

text \<open>
  What can be thrown inside the two \<^verbatim>\<open>try\<close> blocks: the \<^verbatim>\<open>TypeError\<close> of the
  platform's \<^verbatim>\<open>URL\<close> constructor, and the two \<^verbatim>\<open>new Error(msg)\<close> of the generic branch.
  A computation that may throw has type \<open>exn + 'a\<close>, with \<open>Inl\<close> the thrown value.
\<close>

datatype exn = TypeError | Error string

text \<open>
  The \<^verbatim>\<open>URL\<close> object, as far as \<^verbatim>\<open>validateUrl\<close> reads it: the values of its getters
  \<^verbatim>\<open>protocol\<close>, \<^verbatim>\<open>host\<close> and \<^verbatim>\<open>port\<close>, all strings.
\<close>

record URL =
  protocol :: string
  host :: string
  port :: string

subsection \<open>The string methods used\<close>

text \<open>\<^verbatim>\<open>s.startsWith(p)\<close>.\<close>

definition startsWith :: "string \<Rightarrow> string \<Rightarrow> bool" where
  "startsWith s p = (take (length p) s = p)"

text \<open>
  \<^verbatim>\<open>s.split(sep)\<close> for a separator of one character: the pieces between the
  separators, so one piece more than there are separators (\<^verbatim>\<open>''.split('.')\<close> is
  \<^verbatim>\<open>['']\<close>).
\<close>

fun split :: "string \<Rightarrow> char \<Rightarrow> string list" where
  "split [] sep = [[]]"
| "split (c # cs) sep =
     (if c = sep then [] # split cs sep
      else (case split cs sep of
              [] \<Rightarrow> [[c]]
            | piece # pieces \<Rightarrow> (c # piece) # pieces))"

text \<open>\<^verbatim>\<open>s.slice(0, -1)\<close>: all but the last character (the empty string stays empty).\<close>

definition slice_0_minus1 :: "string \<Rightarrow> string" where
  "slice_0_minus1 s = butlast s"

subsection \<open>\<^verbatim>\<open>validateUrl\<close>\<close>

text \<open>
  The platform's constructor \<^verbatim>\<open>new URL(input)\<close> is a parameter \<open>newURL\<close> of the
  model: it either throws or returns a \<^verbatim>\<open>URL\<close> object. Section
  \<open>The URL constructor\<close> below gives the constructor of the URL Standard as one
  instance.

  The body of the \<^verbatim>\<open>try\<close> block of the \<^verbatim>\<open>'custom-scheme'\<close> case.
\<close>

definition custom_scheme_try :: "(string \<Rightarrow> exn + URL) \<Rightarrow> string \<Rightarrow> exn + validated" where
  "custom_scheme_try newURL originParam =
     (case newURL originParam of
        Inl e \<Rightarrow> Inl e
      | Inr url \<Rightarrow>
          (let scheme = slice_0_minus1 (protocol url)
           in Inr (success [scheme])))"

text \<open>The body of the \<^verbatim>\<open>try\<close> block of the \<^verbatim>\<open>'generic'\<close> case.\<close>

definition generic_try :: "(string \<Rightarrow> exn + URL) \<Rightarrow> string \<Rightarrow> exn + validated" where
  "generic_try newURL originParam =
     (case newURL originParam of
        Inl e \<Rightarrow> Inl e
      | Inr url \<Rightarrow>
          (let host = URL.host url
           in if host = [] then Inl (Error ''missing host'')
              else if length (split host CHR ''.'') = 1 \<and> port url = []
                then Inl (Error ''invalid url'')
              else Inr (success [host])))"

text \<open>
  The function itself. The service kind is a string at run time, and the \<^verbatim>\<open>switch\<close>
  has a \<^verbatim>\<open>default\<close> case; the result is \<open>Inr\<close> of the returned object, or \<open>Inl\<close> of
  an exception that leaves the function. Each \<^verbatim>\<open>catch (e)\<close> ignores \<open>e\<close>.
\<close>

function validateUrl :: "(string \<Rightarrow> exn + URL) \<Rightarrow> string \<Rightarrow> string \<Rightarrow> exn + validated" where
  "validateUrl newURL originParam service =
     (if service = ''netlify'' then Inr (success [originParam])
      else if service = ''vercel'' then Inr (success [''vercel.app'', originParam])
      else if service = ''custom-scheme'' then
        (case custom_scheme_try newURL originParam of
           Inr r \<Rightarrow> Inr r
         | Inl e \<Rightarrow> Inr (error ''Invalid scheme.''))
      else if service = ''generic'' then
        (case generic_try newURL originParam of
           Inr r \<Rightarrow> Inr r
         | Inl e \<Rightarrow>
             if \<not> startsWith originParam ''http''
             then validateUrl newURL (''http://'' @ originParam) service
             else Inr (error ''Invalid URL.''))
      else Inr (error ''Unknown type''))"
  by pat_completeness auto
termination
  by (relation "measure (\<lambda>(newURL, originParam, service).
                           if startsWith originParam ''http'' then 0 else 1)")
     (auto simp: startsWith_def)

text \<open>
  The same function, returning in addition the number of recursive calls it made.
\<close>

function validateUrl_traced ::
  "(string \<Rightarrow> exn + URL) \<Rightarrow> string \<Rightarrow> string \<Rightarrow> (exn + validated) \<times> nat" where
  "validateUrl_traced newURL originParam service =
     (if service = ''netlify'' then (Inr (success [originParam]), 0)
      else if service = ''vercel'' then (Inr (success [''vercel.app'', originParam]), 0)
      else if service = ''custom-scheme'' then
        (case custom_scheme_try newURL originParam of
           Inr r \<Rightarrow> (Inr r, 0)
         | Inl e \<Rightarrow> (Inr (error ''Invalid scheme.''), 0))
      else if service = ''generic'' then
        (case generic_try newURL originParam of
           Inr r \<Rightarrow> (Inr r, 0)
         | Inl e \<Rightarrow>
             if \<not> startsWith originParam ''http''
             then apsnd Suc (validateUrl_traced newURL (''http://'' @ originParam) service)
             else (Inr (error ''Invalid URL.''), 0))
      else (Inr (error ''Unknown type''), 0))"
  by pat_completeness auto
termination
  by (relation "measure (\<lambda>(newURL, originParam, service).
                           if startsWith originParam ''http'' then 0 else 1)")
     (auto simp: startsWith_def)

subsection \<open>\<^verbatim>\<open>originDisplay\<close>\<close>

text \<open>
  \<^verbatim>\<open>originDisplay\<close> of the same file gives the text shown for a stored origin, from
  its service kind and its \<^verbatim>\<open>params\<close>. \<^verbatim>\<open>params[i]\<close> is \<^verbatim>\<open>undefined\<close> beyond the
  end of the array (\<open>None\<close> here), and a template literal prints it as
  \<^verbatim>\<open>undefined\<close>.
\<close>

definition index :: "string list \<Rightarrow> nat \<Rightarrow> string option" where
  "index params i = (if i < length params then Some (params ! i) else None)"

definition originDisplay :: "string \<Rightarrow> string list \<Rightarrow> string option" where
  "originDisplay service params =
     (if service = ''generic'' then index params 0
      else if service = ''netlify'' then index params 0
      else if service = ''vercel'' then index params 1
      else if service = ''custom-scheme'' then
        Some ((case index params 0 of None \<Rightarrow> ''undefined'' | Some p \<Rightarrow> p) @ ''://'')
      else index params 0)"

section \<open>The URL constructor of the platform\<close>

text \<open>
  \<^verbatim>\<open>new URL(input)\<close>, called with no base URL, is the URL parser of the WHATWG URL
  Standard: it throws a \<^verbatim>\<open>TypeError\<close> where the parser returns failure. This section
  writes that parser down as far as \<^verbatim>\<open>validateUrl\<close> can observe it, that is up to
  the scheme, the host and the port of the parsed URL. The states of the parser that
  follow the port (path start, path, opaque path, query, fragment) never return failure
  and leave scheme, host and port as they are, so they are left out.

  Strings stand for the UTF-8 encoding of the text. Every delimiter and every class of
  code points the parser tests lies in ASCII, so scanning bytes or code points is the
  same. One step of the Standard is a parameter \<open>idna\<close>: the Unicode \<^verbatim>\<open>ToASCII\<close>
  operation (UTS #46) on a domain that is not plain ASCII or has a label starting with
  \<^verbatim>\<open>xn--\<close>; it needs the Unicode tables of the platform. On every other domain the
  Standard says that \<^verbatim>\<open>ToASCII\<close> is ASCII lower-casing.

  Numbers are \<open>int\<close>, the mathematical integers of the Standard.
\<close>

subsection \<open>Code points\<close>

text \<open>The classes of code points the Standard names.\<close>

definition code_point :: "char \<Rightarrow> int" where
  "code_point c = of_char c"

definition is_ascii_digit :: "char \<Rightarrow> bool" where
  "is_ascii_digit c = (48 \<le> code_point c \<and> code_point c \<le> 57)"

definition is_ascii_upper_alpha :: "char \<Rightarrow> bool" where
  "is_ascii_upper_alpha c = (65 \<le> code_point c \<and> code_point c \<le> 90)"

definition is_ascii_lower_alpha :: "char \<Rightarrow> bool" where
  "is_ascii_lower_alpha c = (97 \<le> code_point c \<and> code_point c \<le> 122)"

definition is_ascii_alpha :: "char \<Rightarrow> bool" where
  "is_ascii_alpha c = (is_ascii_upper_alpha c \<or> is_ascii_lower_alpha c)"

definition is_ascii_alphanumeric :: "char \<Rightarrow> bool" where
  "is_ascii_alphanumeric c = (is_ascii_digit c \<or> is_ascii_alpha c)"

definition is_ascii_hex_digit :: "char \<Rightarrow> bool" where
  "is_ascii_hex_digit c =
     (is_ascii_digit c \<or> (65 \<le> code_point c \<and> code_point c \<le> 70)
        \<or> (97 \<le> code_point c \<and> code_point c \<le> 102))"

definition is_ascii_code_point :: "char \<Rightarrow> bool" where
  "is_ascii_code_point c = (code_point c \<le> 127)"

definition is_c0_control :: "char \<Rightarrow> bool" where
  "is_c0_control c = (code_point c \<le> 31)"

definition is_c0_control_or_space :: "char \<Rightarrow> bool" where
  "is_c0_control_or_space c = (code_point c \<le> 32)"

definition is_ascii_tab_or_newline :: "char \<Rightarrow> bool" where
  "is_ascii_tab_or_newline c = (c = CHR 0x09 \<or> c = CHR 0x0A \<or> c = CHR 0x0D)"

definition ascii_lowercase :: "char \<Rightarrow> char" where
  "ascii_lowercase c = (if is_ascii_upper_alpha c then char_of (code_point c + 32) else c)"

text \<open>The value of a digit in a radix up to 16, and of a digit string.\<close>

definition digit_value :: "char \<Rightarrow> int" where
  "digit_value c =
     (if is_ascii_digit c then code_point c - 48
      else if is_ascii_upper_alpha c then code_point c - 55
      else code_point c - 87)"

definition number_value :: "int \<Rightarrow> string \<Rightarrow> int" where
  "number_value radix digits = foldl (\<lambda>acc d. acc * radix + digit_value d) 0 digits"

definition is_radix_digit :: "int \<Rightarrow> char \<Rightarrow> bool" where
  "is_radix_digit radix c = (is_ascii_hex_digit c \<and> digit_value c < radix)"

text \<open>Shortest decimal and lower-case hexadecimal numerals.\<close>

definition digit_char :: "int \<Rightarrow> char" where
  "digit_char d = (if d < 10 then char_of (48 + d) else char_of (87 + d))"

function numeral_of :: "int \<Rightarrow> int \<Rightarrow> string" where
  "numeral_of radix n =
     (if radix < 2 \<or> n < radix then [digit_char n]
      else numeral_of radix (n div radix) @ [digit_char (n mod radix)])"
  by pat_completeness auto
termination
  by (relation "measure (\<lambda>(radix, n). nat n)") (auto intro: int_div_less_self)

text \<open>The parts of a list, with a separator between neighbours.\<close>

definition join :: "string \<Rightarrow> string list \<Rightarrow> string" where
  "join sep parts = (case parts of [] \<Rightarrow> [] | p # ps \<Rightarrow> p @ concat (map (\<lambda>q. sep @ q) ps))"

subsection \<open>Schemes\<close>

text \<open>The special schemes and their default ports (\<^verbatim>\<open>file\<close> has none).\<close>

definition default_port :: "string \<Rightarrow> int option" where
  "default_port scheme =
     (if scheme = ''ftp'' then Some 21
      else if scheme = ''http'' then Some 80
      else if scheme = ''https'' then Some 443
      else if scheme = ''ws'' then Some 80
      else if scheme = ''wss'' then Some 443
      else None)"

definition is_special :: "string \<Rightarrow> bool" where
  "is_special scheme = (scheme \<in> set [''ftp'', ''file'', ''http'', ''https'', ''ws'', ''wss''])"

text \<open>
  Before parsing, leading and trailing C0 control or space are removed from the input,
  then every ASCII tab or newline.
\<close>

definition strip_input :: "string \<Rightarrow> string" where
  "strip_input input =
     filter (\<lambda>c. \<not> is_ascii_tab_or_newline c)
       (rev (dropWhile is_c0_control_or_space (rev (dropWhile is_c0_control_or_space input))))"

text \<open>
  Scheme start state and scheme state: an ASCII letter, then letters, digits, \<^verbatim>\<open>+\<close>,
  \<^verbatim>\<open>-\<close> and \<^verbatim>\<open>.\<close> up to a colon. The result is the lower-cased scheme and what
  follows the colon. Anything else leads to the no scheme state, which fails when there
  is no base URL.
\<close>

definition is_scheme_code_point :: "char \<Rightarrow> bool" where
  "is_scheme_code_point c =
     (is_ascii_alphanumeric c \<or> c = CHR ''+'' \<or> c = CHR ''-'' \<or> c = CHR ''.'')"

definition parse_scheme :: "string \<Rightarrow> (string \<times> string) option" where
  "parse_scheme input =
     (case input of
        [] \<Rightarrow> None
      | c # cs \<Rightarrow>
          if is_ascii_alpha c then
            (case dropWhile is_scheme_code_point cs of
               [] \<Rightarrow> None
             | d # remaining \<Rightarrow>
                 if d = CHR '':''
                 then Some (map ascii_lowercase (c # takeWhile is_scheme_code_point cs), remaining)
                 else None)
          else None)"

subsection \<open>Hosts\<close>

text \<open>A host is a domain, an IPv4 address, an IPv6 address (eight pieces) or an opaque
  host; the empty host is the empty opaque host.\<close>

datatype url_host = Domain string | IPv4 int | IPv6 "int list" | Opaque_Host string

definition is_forbidden_host_code_point :: "char \<Rightarrow> bool" where
  "is_forbidden_host_code_point c =
     (c \<in> set [CHR 0x00, CHR 0x09, CHR 0x0A, CHR 0x0D, CHR '' '', CHR ''#'', CHR ''/'',
                CHR '':'', CHR ''<'', CHR ''>'', CHR ''?'', CHR ''@'', CHR ''['', CHR 0x5C,
                CHR '']'', CHR ''^'', CHR ''|''])"

definition is_forbidden_domain_code_point :: "char \<Rightarrow> bool" where
  "is_forbidden_domain_code_point c =
     (is_forbidden_host_code_point c \<or> is_c0_control c \<or> c = CHR ''%'' \<or> c = CHR 0x7F)"

text \<open>Percent-decoding of a byte sequence.\<close>

fun percent_decode :: "string \<Rightarrow> string" where
  "percent_decode (c # h1 # h2 # rest) =
     (if c = CHR ''%'' \<and> is_ascii_hex_digit h1 \<and> is_ascii_hex_digit h2
      then char_of (16 * digit_value h1 + digit_value h2) # percent_decode rest
      else c # percent_decode (h1 # h2 # rest))"
| "percent_decode (c # cs) = c # percent_decode cs"
| "percent_decode [] = []"

text \<open>
  The opaque-host parser (the host of a URL whose scheme is not special): no forbidden
  host code point, and the bytes of the C0 control percent-encode set percent-encoded.
\<close>

definition percent_encode_byte :: "char \<Rightarrow> string" where
  "percent_encode_byte c =
     [CHR ''%'', ''0123456789ABCDEF'' ! nat (code_point c div 16),
      ''0123456789ABCDEF'' ! nat (code_point c mod 16)]"

definition in_c0_control_percent_encode_set :: "char \<Rightarrow> bool" where
  "in_c0_control_percent_encode_set c = (is_c0_control c \<or> 126 < code_point c)"

definition opaque_host_parser :: "string \<Rightarrow> url_host option" where
  "opaque_host_parser input =
     (if list_ex is_forbidden_host_code_point input then None
      else Some (Opaque_Host (concat (map (\<lambda>c. if in_c0_control_percent_encode_set c
                                               then percent_encode_byte c else [c]) input))))"

text \<open>
  Domain to ASCII, with \<^verbatim>\<open>beStrict\<close> false. The result must not be empty.
\<close>

definition is_plain_ascii_domain :: "string \<Rightarrow> bool" where
  "is_plain_ascii_domain domain =
     (list_all is_ascii_code_point domain \<and>
      list_all (\<lambda>label. map ascii_lowercase (take 4 label) \<noteq> ''xn--'') (split domain CHR ''.''))"

definition domain_to_ASCII :: "(string \<Rightarrow> string option) \<Rightarrow> string \<Rightarrow> string option" where
  "domain_to_ASCII idna domain =
     (case (if is_plain_ascii_domain domain then Some (map ascii_lowercase domain)
            else idna domain) of
        None \<Rightarrow> None
      | Some result \<Rightarrow> if result = [] then None else Some result)"

text \<open>
  The IPv4 number parser (decimal, \<^verbatim>\<open>0x\<close> hexadecimal, \<^verbatim>\<open>0\<close> octal), the
  ends-in-a-number checker, the IPv4 parser and the IPv4 serializer.
\<close>

definition ipv4_number_parser :: "string \<Rightarrow> int option" where
  "ipv4_number_parser input =
     (if input = [] then None
      else
        (let (digits, R) =
               (if 2 \<le> length input \<and> (take 2 input = ''0x'' \<or> take 2 input = ''0X'')
                  then (drop 2 input, 16::int)
                else if 2 \<le> length input \<and> take 1 input = ''0''
                  then (drop 1 input, 8)
                else (input, 10))
         in if digits = [] then Some 0
            else if list_all (is_radix_digit R) digits then Some (number_value R digits)
            else None))"

definition ends_in_a_number :: "string \<Rightarrow> bool" where
  "ends_in_a_number input =
     (let parts = split input CHR ''.''
      in if last parts = [] \<and> length parts = 1 then False
         else
           (let parts = (if last parts = [] then butlast parts else parts);
                last_part = last parts
            in if last_part \<noteq> [] \<and> list_all is_ascii_digit last_part then True
               else (case ipv4_number_parser last_part of None \<Rightarrow> False | Some n \<Rightarrow> True)))"

definition ipv4_parser :: "string \<Rightarrow> int option" where
  "ipv4_parser input =
     (let parts = split input CHR ''.'';
          parts = (if last parts = [] \<and> 1 < length parts then butlast parts else parts)
      in if 4 < length parts then None
         else
           (case those (map ipv4_number_parser parts) of
              None \<Rightarrow> None
            | Some numbers \<Rightarrow>
                if list_ex (\<lambda>n. 255 < n) (butlast numbers) then None
                else if 256 ^ (5 - length numbers) \<le> last numbers then None
                else Some (last numbers +
                           sum_list (map (\<lambda>(n, counter). n * 256 ^ (3 - counter))
                                       (zip (butlast numbers) [0 ..< 3])))))"

definition ipv4_serializer :: "int \<Rightarrow> string" where
  "ipv4_serializer address =
     join ''.'' (map (\<lambda>i. numeral_of 10 ((address div 256 ^ (3 - i)) mod 256)) [0 ..< 4])"

text \<open>
  The IPv6 parser. \<open>ipv6_pieces\<close> is its main loop: \<open>pieces\<close> are the pieces read so
  far (the piece index of the Standard is their number) and \<open>compress\<close> the index
  after a \<^verbatim>\<open>::\<close>. An IPv4 address in dotted decimals may end the input; it gives
  two pieces. At the end the pieces read after the \<^verbatim>\<open>::\<close> move to the end of the
  address.
\<close>

definition ipv4_in_ipv6 :: "string \<Rightarrow> (int \<times> int) option" where
  "ipv4_in_ipv6 input =
     (let parts = split input CHR ''.''
      in if length parts = 4 \<and>
            list_all (\<lambda>p. p \<noteq> [] \<and> list_all is_ascii_digit p \<and>
                          \<not> (1 < length p \<and> take 1 p = ''0'') \<and> number_value 10 p \<le> 255) parts
         then (case map (number_value 10) parts of
                 [a, b, c, d] \<Rightarrow> Some (a * 256 + b, c * 256 + d)
               | _ \<Rightarrow> None)
         else None)"

function ipv6_pieces :: "int list \<Rightarrow> nat option \<Rightarrow> string \<Rightarrow> (int list \<times> nat option) option" where
  "ipv6_pieces pieces compress input =
     (if input = [] then Some (pieces, compress)
      else if length pieces = 8 then None
      else if hd input = CHR '':'' then
        (if compress \<noteq> None then None
         else ipv6_pieces (pieces @ [0]) (Some (Suc (length pieces))) (tl input))
      else
        (let digits = takeWhile is_ascii_hex_digit (take 4 input)
         in if digits = [] then None
            else
              (case drop (length digits) input of
                 [] \<Rightarrow> Some (pieces @ [number_value 16 digits], compress)
               | c # cs \<Rightarrow>
                   if c = CHR ''.'' then
                     (if 6 < length pieces then None
                      else (case ipv4_in_ipv6 input of
                              None \<Rightarrow> None
                            | Some (high, low) \<Rightarrow> Some (pieces @ [high, low], compress)))
                   else if c = CHR '':'' then
                     (if cs = [] then None
                      else ipv6_pieces (pieces @ [number_value 16 digits]) compress cs)
                   else None)))"
  by pat_completeness auto
termination
proof (relation "measure (\<lambda>(pieces, compress, input). length input)", goal_cases)
  case 1
  show ?case by simp
next
  case (2 pieces compress input)
  then show ?case by (cases input) simp_all
next
  case (3 pieces compress input digits c cs)
  have "length (drop (length digits) input) \<le> length input" by simp
  with 3 show ?case by simp
qed

definition ipv6_parser :: "string \<Rightarrow> int list option" where
  "ipv6_parser input =
     (case (if take 1 input = '':''
            then (if take 2 input = ''::'' then ipv6_pieces [0] (Some 1) (drop 2 input) else None)
            else ipv6_pieces [] None input) of
        None \<Rightarrow> None
      | Some (pieces, None) \<Rightarrow> if length pieces = 8 then Some pieces else None
      | Some (pieces, Some compress) \<Rightarrow>
          Some (take compress pieces @ replicate (8 - length pieces) 0 @ drop compress pieces))"

text \<open>
  The IPv6 serializer: the first longest run of two or more zero pieces becomes
  \<^verbatim>\<open>::\<close>.
\<close>

definition zero_run :: "int list \<Rightarrow> nat \<Rightarrow> nat" where
  "zero_run address i = length (takeWhile (\<lambda>piece. piece = 0) (drop i address))"

definition find_compress :: "int list \<Rightarrow> nat option" where
  "find_compress address =
     (let longest = fold max (map (zero_run address) [0 ..< 8]) 0
      in if longest < 2 then None
         else List.find (\<lambda>i. zero_run address i = longest) [0 ..< 8])"

definition ipv6_serializer :: "int list \<Rightarrow> string" where
  "ipv6_serializer address =
     (case find_compress address of
        None \<Rightarrow> join '':'' (map (numeral_of 16) address)
      | Some compress \<Rightarrow>
          concat (map (\<lambda>piece. numeral_of 16 piece @ '':'') (take compress address))
          @ (if compress = 0 then ''::'' else '':'')
          @ join '':'' (map (numeral_of 16) (drop (compress + zero_run address compress) address)))"

definition host_serializer :: "url_host \<Rightarrow> string" where
  "host_serializer h =
     (case h of
        Domain d \<Rightarrow> d
      | IPv4 address \<Rightarrow> ipv4_serializer address
      | IPv6 address \<Rightarrow> ''['' @ ipv6_serializer address @ '']''
      | Opaque_Host s \<Rightarrow> s)"

text \<open>The host parser.\<close>

definition host_parser :: "(string \<Rightarrow> string option) \<Rightarrow> string \<Rightarrow> bool \<Rightarrow> url_host option" where
  "host_parser idna input isOpaque =
     (if take 1 input = ''['' then
        (if last input \<noteq> CHR '']'' then None
         else map_option IPv6 (ipv6_parser (butlast (tl input))))
      else if isOpaque then opaque_host_parser input
      else
        (case domain_to_ASCII idna (percent_decode input) of
           None \<Rightarrow> None
         | Some asciiDomain \<Rightarrow>
             if list_ex is_forbidden_domain_code_point asciiDomain then None
             else if ends_in_a_number asciiDomain then map_option IPv4 (ipv4_parser asciiDomain)
             else Some (Domain asciiDomain)))"

subsection \<open>The states of the parser\<close>

text \<open>What the parser has found: the scheme, the host (or null) and the port (or null).\<close>

record url_record =
  url_scheme :: string
  url_host :: "url_host option"
  url_port :: "int option"

text \<open>
  Port state, on the text between the colon and the end of the authority: digits only;
  a number above 65535 fails; the default port of the scheme becomes null.
\<close>

definition port_state :: "string \<Rightarrow> string \<Rightarrow> int option option" where
  "port_state scheme buffer =
     (if \<not> list_all is_ascii_digit buffer then None
      else if buffer = [] then Some None
      else if 65535 < number_value 10 buffer then None
      else if default_port scheme = Some (number_value 10 buffer) then Some None
      else Some (Some (number_value 10 buffer)))"

text \<open>
  The code points that end the authority: \<^verbatim>\<open>/\<close>, \<^verbatim>\<open>?\<close>, \<^verbatim>\<open>#\<close>, and the
  backslash when the scheme is special.
\<close>

definition ends_authority :: "bool \<Rightarrow> char \<Rightarrow> bool" where
  "ends_authority special c =
     (c = CHR ''/'' \<or> c = CHR ''?'' \<or> c = CHR ''#'' \<or> (special \<and> c = CHR 0x5C))"

text \<open>
  Host state. \<open>host_buffer\<close> reads the buffer up to the first colon outside square
  brackets and returns it with the text after that colon, if there is one.
\<close>

fun host_buffer :: "bool \<Rightarrow> string \<Rightarrow> string \<Rightarrow> string \<times> string option" where
  "host_buffer insideBrackets buffer [] = (buffer, None)"
| "host_buffer insideBrackets buffer (c # cs) =
     (if c = CHR '':'' \<and> \<not> insideBrackets then (buffer, Some cs)
      else host_buffer (if c = CHR ''['' then True else if c = CHR '']'' then False
                        else insideBrackets)
             (buffer @ [c]) cs)"

definition host_state ::
  "(string \<Rightarrow> string option) \<Rightarrow> string \<Rightarrow> string \<Rightarrow> url_record option" where
  "host_state idna scheme input =
     (case host_buffer False [] input of
        (buffer, Some after_colon) \<Rightarrow>
          if buffer = [] then None
          else (case host_parser idna buffer (\<not> is_special scheme) of
                  None \<Rightarrow> None
                | Some h \<Rightarrow>
                    (case port_state scheme after_colon of
                       None \<Rightarrow> None
                     | Some p \<Rightarrow> Some \<lparr>url_scheme = scheme, url_host = Some h, url_port = p\<rparr>))
      | (buffer, None) \<Rightarrow>
          if is_special scheme \<and> buffer = [] then None
          else (case host_parser idna buffer (\<not> is_special scheme) of
                  None \<Rightarrow> None
                | Some h \<Rightarrow> Some \<lparr>url_scheme = scheme, url_host = Some h, url_port = None\<rparr>))"

text \<open>
  Authority state: the authority runs up to the first code point that ends it. What
  precedes its last \<^verbatim>\<open>@\<close> are credentials; an \<^verbatim>\<open>@\<close> with nothing after it
  fails. The host state then reads the rest.
\<close>

definition authority_state ::
  "(string \<Rightarrow> string option) \<Rightarrow> string \<Rightarrow> string \<Rightarrow> url_record option" where
  "authority_state idna scheme input =
     (let authority = takeWhile (\<lambda>c. \<not> ends_authority (is_special scheme) c) input;
          buffer = rev (takeWhile (\<lambda>c. c \<noteq> CHR ''@'') (rev authority))
      in if CHR ''@'' \<in> set authority \<and> buffer = [] then None
         else host_state idna scheme buffer)"

text \<open>
  File state, file slash state and file host state. The host \<^verbatim>\<open>localhost\<close> becomes
  the empty host, and a Windows drive letter is not a host.
\<close>

definition is_windows_drive_letter :: "string \<Rightarrow> bool" where
  "is_windows_drive_letter s =
     (case s of [a, b] \<Rightarrow> is_ascii_alpha a \<and> (b = CHR '':'' \<or> b = CHR ''|'') | _ \<Rightarrow> False)"

definition is_slash :: "char \<Rightarrow> bool" where
  "is_slash c = (c = CHR ''/'' \<or> c = CHR 0x5C)"

definition file_host_state :: "(string \<Rightarrow> string option) \<Rightarrow> string \<Rightarrow> url_record option" where
  "file_host_state idna input =
     (let buffer = takeWhile (\<lambda>c. \<not> (is_slash c \<or> c = CHR ''?'' \<or> c = CHR ''#'')) input;
          empty_host = \<lparr>url_scheme = ''file'', url_host = Some (Opaque_Host []), url_port = None\<rparr>
      in if is_windows_drive_letter buffer then Some empty_host
         else if buffer = [] then Some empty_host
         else (case host_parser idna buffer False of
                 None \<Rightarrow> None
               | Some h \<Rightarrow>
                   if h = Domain ''localhost'' then Some empty_host
                   else Some \<lparr>url_scheme = ''file'', url_host = Some h, url_port = None\<rparr>))"

definition file_state :: "(string \<Rightarrow> string option) \<Rightarrow> string \<Rightarrow> url_record option" where
  "file_state idna remaining =
     (if list_all is_slash (take 2 remaining) \<and> 2 \<le> length remaining
      then file_host_state idna (drop 2 remaining)
      else Some \<lparr>url_scheme = ''file'', url_host = Some (Opaque_Host []), url_port = None\<rparr>)"

text \<open>
  The parser, from the scheme on. After a special scheme any run of slashes and
  backslashes precedes the authority; after another scheme \<^verbatim>\<open>//\<close> does, and without
  it the URL has no host.
\<close>

definition basic_URL_parser :: "(string \<Rightarrow> string option) \<Rightarrow> string \<Rightarrow> url_record option" where
  "basic_URL_parser idna input =
     (case parse_scheme (strip_input input) of
        None \<Rightarrow> None
      | Some (scheme, remaining) \<Rightarrow>
          if scheme = ''file'' then file_state idna remaining
          else if is_special scheme then authority_state idna scheme (dropWhile is_slash remaining)
          else if take 2 remaining = ''//'' then authority_state idna scheme (drop 2 remaining)
          else Some \<lparr>url_scheme = scheme, url_host = None, url_port = None\<rparr>)"

text \<open>
  The constructor, with the getters \<^verbatim>\<open>protocol\<close>, \<^verbatim>\<open>host\<close> and \<^verbatim>\<open>port\<close> of
  the URL object it returns.
\<close>

definition URL_new :: "(string \<Rightarrow> string option) \<Rightarrow> string \<Rightarrow> exn + URL" where
  "URL_new idna input =
     (case basic_URL_parser idna input of
        None \<Rightarrow> Inl TypeError
      | Some url \<Rightarrow>
          Inr \<lparr>protocol = url_scheme url @ '':'',
               host = (case url_host url of
                         None \<Rightarrow> []
                       | Some h \<Rightarrow>
                           (case url_port url of
                              None \<Rightarrow> host_serializer h
                            | Some p \<Rightarrow> host_serializer h @ '':'' @ numeral_of 10 p)),
               port = (case url_port url of None \<Rightarrow> [] | Some p \<Rightarrow> numeral_of 10 p)\<rparr>)"

text \<open>
  A platform whose \<^verbatim>\<open>ToASCII\<close> rejects every domain that is not plain ASCII. It is
  used where a closed term is needed; the inputs evaluated with it never reach it.
\<close>

definition no_idna :: "string \<Rightarrow> string option" where
  "no_idna domain = None"

section \<open>Origins that validate to themselves\<close>

text \<open>
  The text that \<^verbatim>\<open>validateUrl\<close> returns for the generic kind is the \<^verbatim>\<open>host\<close> getter
  of a URL: a serialized host, then a colon and the port if the URL has one. Read again
  as an input, such a text \<open>h\<close> is split by the host state into a host name and what
  follows its first colon outside square brackets. It is a stable origin when
  \<^item> it does not start with \<^verbatim>\<open>http\<close>, so that the retry is open to it;
  \<^item> its host name is not, in lower case, one of the special schemes \<^verbatim>\<open>http\<close>,
    \<^verbatim>\<open>https\<close>, \<^verbatim>\<open>ws\<close>, \<^verbatim>\<open>wss\<close> and \<^verbatim>\<open>ftp\<close>, which the constructor would read
    as the scheme of a URL whose host is the port;
  \<^item> its port is not 80, the default port of \<^verbatim>\<open>http\<close>, which the retry drops;
  \<^item> the host parser of a special URL returns its host name as it is.
\<close>

definition stable_origin :: "(string \<Rightarrow> string option) \<Rightarrow> string \<Rightarrow> bool" where
  "stable_origin idna h =
     (case host_buffer False [] h of
        (hostname, after) \<Rightarrow>
          \<not> startsWith h ''http''
          \<and> map ascii_lowercase hostname \<notin> set [''http'', ''https'', ''ws'', ''wss'', ''ftp'']
          \<and> after \<noteq> Some ''80''
          \<and> (case host_parser idna hostname False of
                None \<Rightarrow> False
              | Some parsed \<Rightarrow> host_serializer parsed = hostname))"

text \<open>
  Every text that \<^verbatim>\<open>validateUrl\<close> returns for the generic kind is well formed in the
  following sense (lemma \<open>validated_origin_well_formed\<close> below): it has no C0 control,
  no space, none of the code points that end an authority and no \<^verbatim>\<open>@\<close>; its port, if
  it has one, is the shortest decimal numeral of a number up to 65535; without a port
  its host name has a dot.
\<close>

definition is_plain_authority_code_point :: "char \<Rightarrow> bool" where
  "is_plain_authority_code_point c =
     (\<not> is_c0_control_or_space c \<and> \<not> ends_authority True c \<and> c \<noteq> CHR ''@'')"

definition well_formed_port :: "string \<Rightarrow> bool" where
  "well_formed_port digits =
     (digits \<noteq> [] \<and> list_all is_ascii_digit digits \<and> number_value 10 digits \<le> 65535
      \<and> numeral_of 10 (number_value 10 digits) = digits)"

definition well_formed_origin :: "string \<Rightarrow> bool" where
  "well_formed_origin h =
     (case host_buffer False [] h of
        (hostname, after) \<Rightarrow>
          list_all is_plain_authority_code_point h
          \<and> (case after of
                None \<Rightarrow> CHR ''.'' \<in> set hostname
              | Some digits \<Rightarrow> well_formed_port digits))"

text \<open>
  The shape of a serialized host: host name code points, which are the plain authority
  code points other than the colon and the square brackets, or hexadecimal digits and
  colons in square brackets.
\<close>

definition is_host_name_code_point :: "char \<Rightarrow> bool" where
  "is_host_name_code_point c =
     (is_plain_authority_code_point c \<and> c \<noteq> CHR '':'' \<and> c \<noteq> CHR ''['' \<and> c \<noteq> CHR '']'')"

definition is_serialized_host :: "string \<Rightarrow> bool" where
  "is_serialized_host x =
     (list_all is_host_name_code_point x
      \<or> (take 1 x = ''['' \<and> 2 \<le> length x \<and> last x = CHR '']''
          \<and> list_all (\<lambda>c. is_ascii_hex_digit c \<or> c = CHR '':'') (butlast (tl x))))"

declare validateUrl.simps [simp del] validateUrl_traced.simps [simp del]

declare numeral_of.simps [simp del] ipv6_pieces.simps [simp del]

section \<open>Properties of \<^verbatim>\<open>validateUrl\<close> for every URL constructor\<close>

lemma startsWith_http_prefixed: "startsWith (''http://'' @ s) ''http''"
  by (simp add: startsWith_def)

text \<open>The generic branch, with the one possible retry written out.\<close>

lemma validateUrl_generic_retried:
  "validateUrl newURL (''http://'' @ s) ''generic'' =
     (case generic_try newURL (''http://'' @ s) of
        Inr r \<Rightarrow> Inr r
      | Inl e \<Rightarrow> Inr (error ''Invalid URL.''))"
proof -
  have "startsWith (''http://'' @ s) ''http''"
    by (rule startsWith_http_prefixed)
  then show ?thesis
    by (subst validateUrl.simps) (simp split: sum.splits)
qed

lemma validateUrl_generic_unfold:
  "validateUrl newURL s ''generic'' =
     (case generic_try newURL s of
        Inr r \<Rightarrow> Inr r
      | Inl e \<Rightarrow>
          if startsWith s ''http'' then Inr (error ''Invalid URL.'')
          else (case generic_try newURL (''http://'' @ s) of
                  Inr r \<Rightarrow> Inr r
                | Inl e' \<Rightarrow> Inr (error ''Invalid URL.'')))"
  by (subst validateUrl.simps) (simp only: validateUrl_generic_retried, simp split: sum.splits)

lemma validateUrl_custom_scheme_unfold:
  "validateUrl newURL s ''custom-scheme'' =
     (case newURL s of
        Inl e \<Rightarrow> Inr (error ''Invalid scheme.'')
      | Inr url \<Rightarrow> Inr (success [butlast (protocol url)]))"
  by (simp add: validateUrl.simps [of newURL s] custom_scheme_try_def slice_0_minus1_def
        split: sum.splits)

lemma generic_try_success:
  "generic_try newURL s = Inr r \<Longrightarrow> \<exists>h. r = success [h] \<and> h \<noteq> []"
  by (auto simp: generic_try_def Let_def split: sum.splits if_splits)

lemma validateUrl_netlify: "validateUrl newURL input ''netlify'' = Inr (success [input])"
  by (simp add: validateUrl.simps)

lemma validateUrl_vercel:
  "validateUrl newURL input ''vercel'' = Inr (success [''vercel.app'', input])"
  by (simp add: validateUrl.simps)

lemma validateUrl_unknown:
  "service \<noteq> ''netlify'' \<Longrightarrow> service \<noteq> ''vercel'' \<Longrightarrow> service \<noteq> ''custom-scheme'' \<Longrightarrow>
   service \<noteq> ''generic'' \<Longrightarrow> validateUrl newURL input service = Inr (error ''Unknown type'')"
  by (simp add: validateUrl.simps)

lemma validateUrl_returns:
  "(\<exists>m. validateUrl newURL input service = Inr (error m)) \<or>
   (\<exists>ps. validateUrl newURL input service = Inr (success ps) \<and> ps \<noteq> [])"
proof -
  consider (netlify) "service = ''netlify''" | (vercel) "service = ''vercel''"
    | (custom) "service = ''custom-scheme''" | (generic) "service = ''generic''"
    | (unknown) "service \<noteq> ''netlify''" "service \<noteq> ''vercel''"
        "service \<noteq> ''custom-scheme''" "service \<noteq> ''generic''"
    by blast
  then show ?thesis
  proof cases
    case netlify
    then show ?thesis by (simp add: validateUrl_netlify)
  next
    case vercel
    then show ?thesis by (simp add: validateUrl_vercel)
  next
    case custom
    then show ?thesis
      by (simp add: validateUrl_custom_scheme_unfold split: sum.splits)
  next
    case generic
    then show ?thesis
      by (auto simp: validateUrl_generic_unfold split: sum.splits dest: generic_try_success)
  next
    case unknown
    then show ?thesis by (simp add: validateUrl_unknown)
  qed
qed

text \<open>The traced function computes \<^verbatim>\<open>validateUrl\<close>, and counts at most one call.\<close>

lemma validateUrl_traced_retried:
  "validateUrl_traced newURL (''http://'' @ s) ''generic'' =
     (case generic_try newURL (''http://'' @ s) of
        Inr r \<Rightarrow> (Inr r, 0)
      | Inl e \<Rightarrow> (Inr (error ''Invalid URL.''), 0))"
proof -
  have "startsWith (''http://'' @ s) ''http''"
    by (rule startsWith_http_prefixed)
  then show ?thesis
    by (subst validateUrl_traced.simps) (simp split: sum.splits)
qed

lemma validateUrl_traced_generic_unfold:
  "validateUrl_traced newURL s ''generic'' =
     (case generic_try newURL s of
        Inr r \<Rightarrow> (Inr r, 0)
      | Inl e \<Rightarrow>
          if startsWith s ''http'' then (Inr (error ''Invalid URL.''), 0)
          else (case generic_try newURL (''http://'' @ s) of
                  Inr r \<Rightarrow> (Inr r, 1)
                | Inl e' \<Rightarrow> (Inr (error ''Invalid URL.''), 1)))"
  by (subst validateUrl_traced.simps)
     (simp only: validateUrl_traced_retried, simp split: sum.splits)

lemma validateUrl_traced_not_generic:
  "service \<noteq> ''generic'' \<Longrightarrow>
   validateUrl_traced newURL s service = (validateUrl newURL s service, 0)"
  by (subst validateUrl_traced.simps, subst validateUrl.simps) (simp split: sum.splits)

lemma validateUrl_traced_fst:
  "fst (validateUrl_traced newURL s service) = validateUrl newURL s service"
proof (cases "service = ''generic''")
  case True
  then show ?thesis
    by (simp add: validateUrl_traced_generic_unfold validateUrl_generic_unfold
        split: sum.splits)
next
  case False
  then show ?thesis by (simp add: validateUrl_traced_not_generic)
qed

lemma validateUrl_traced_snd: "snd (validateUrl_traced newURL s service) \<le> 1"
proof (cases "service = ''generic''")
  case True
  then show ?thesis
    by (simp add: validateUrl_traced_generic_unfold split: sum.splits)
next
  case False
  then show ?thesis by (simp add: validateUrl_traced_not_generic)
qed

text \<open>A URL whose host is one label and whose port is empty is a parse failure.\<close>

lemma generic_try_bare_host:
  assumes "newURL s = Inr url" and "length (split (host url) CHR ''.'') = 1"
    and "port url = []"
  shows "\<exists>e. generic_try newURL s = Inl e"
  using assms by (simp add: generic_try_def Let_def)

section \<open>Properties of the URL constructor\<close>

text \<open>The scheme of a parsed URL is the lower-cased text before the first colon of the
  stripped input.\<close>

lemma colon_not_scheme_code_point: "\<not> is_scheme_code_point CHR '':''"
  by (simp add: is_scheme_code_point_def is_ascii_alphanumeric_def is_ascii_alpha_def
      is_ascii_digit_def is_ascii_upper_alpha_def is_ascii_lower_alpha_def code_point_def)

lemma colon_not_alpha: "\<not> is_ascii_alpha CHR '':''"
  by (simp add: is_ascii_alpha_def is_ascii_upper_alpha_def is_ascii_lower_alpha_def
      code_point_def)

lemma takeWhile_not_colon:
  assumes "dropWhile is_scheme_code_point cs = CHR '':'' # rest"
  shows "takeWhile (\<lambda>c. c \<noteq> CHR '':'') cs = takeWhile is_scheme_code_point cs"
proof -
  let ?tw = "takeWhile is_scheme_code_point cs"
  have cs: "cs = ?tw @ CHR '':'' # rest"
    using assms takeWhile_dropWhile_id [of is_scheme_code_point cs] by simp
  have "\<And>x. x \<in> set ?tw \<Longrightarrow> x \<noteq> CHR '':''"
    using colon_not_scheme_code_point by (auto dest: set_takeWhileD)
  then have "takeWhile (\<lambda>c. c \<noteq> CHR '':'') (?tw @ CHR '':'' # rest) = ?tw"
    by (simp add: takeWhile_append2)
  with cs show ?thesis by simp
qed

lemma parse_scheme_lowercase:
  assumes "parse_scheme s = Some (scheme, rest)"
  shows "scheme = map ascii_lowercase (takeWhile (\<lambda>c. c \<noteq> CHR '':'') s)"
proof (cases s)
  case Nil
  with assms show ?thesis by (simp add: parse_scheme_def)
next
  case (Cons c cs)
  with assms have alpha: "is_ascii_alpha c"
    by (simp add: parse_scheme_def split: if_splits)
  with colon_not_alpha have c: "c \<noteq> CHR '':''" by auto
  from assms Cons alpha obtain d remaining where
    d: "dropWhile is_scheme_code_point cs = d # remaining"
    by (auto simp: parse_scheme_def split: list.splits)
  with assms Cons alpha have "d = CHR '':''" and
    scheme: "scheme = map ascii_lowercase (c # takeWhile is_scheme_code_point cs)"
    by (auto simp: parse_scheme_def split: if_splits)
  with d have "takeWhile (\<lambda>c. c \<noteq> CHR '':'') cs = takeWhile is_scheme_code_point cs"
    by (simp add: takeWhile_not_colon)
  with Cons c scheme show ?thesis by simp
qed

lemma host_state_scheme: "host_state idna scheme input = Some u \<Longrightarrow> url_scheme u = scheme"
  by (auto simp: host_state_def split: prod.splits option.splits if_splits)

lemma authority_state_scheme:
  "authority_state idna scheme input = Some u \<Longrightarrow> url_scheme u = scheme"
  by (auto simp: authority_state_def Let_def split: if_splits dest: host_state_scheme)

lemma file_state_scheme: "file_state idna input = Some u \<Longrightarrow> url_scheme u = ''file''"
  by (auto simp: file_state_def file_host_state_def Let_def split: if_splits option.splits)

lemma basic_URL_parser_scheme:
  assumes "basic_URL_parser idna input = Some u"
  shows "\<exists>rest. parse_scheme (strip_input input) = Some (url_scheme u, rest)"
proof -
  from assms obtain scheme rest where
    p: "parse_scheme (strip_input input) = Some (scheme, rest)"
    by (auto simp: basic_URL_parser_def split: option.splits)
  with assms have "url_scheme u = scheme"
    by (auto simp: basic_URL_parser_def split: if_splits
        dest: file_state_scheme authority_state_scheme)
  with p show ?thesis by simp
qed

lemma URL_new_protocol:
  assumes "URL_new idna input = Inr url"
  shows "butlast (protocol url) =
         map ascii_lowercase (takeWhile (\<lambda>c. c \<noteq> CHR '':'') (strip_input input))"
proof -
  from assms obtain u where u: "basic_URL_parser idna input = Some u"
    and "protocol url = url_scheme u @ '':''"
    by (auto simp: URL_new_def split: option.splits)
  then have "butlast (protocol url) = url_scheme u" by simp
  with basic_URL_parser_scheme [OF u] parse_scheme_lowercase show ?thesis by auto
qed

section \<open>Stable origins\<close>

text \<open>
  For every text \<open>h\<close> that \<^verbatim>\<open>validateUrl\<close> returns for the generic kind, this section
  proves that \<^verbatim>\<open>validateUrl\<close> returns \<open>h\<close> again on the input \<open>h\<close> if and only if
  \<open>h\<close> is a stable origin.
\<close>

subsection \<open>Reading a text of plain authority code points\<close>

lemmas class_defs = is_ascii_lower_alpha_def
  is_ascii_upper_alpha_def is_ascii_digit_def is_ascii_alpha_def is_ascii_alphanumeric_def
  is_scheme_code_point_def is_c0_control_or_space_def is_c0_control_def
  is_ascii_tab_or_newline_def is_forbidden_host_code_point_def
  is_forbidden_domain_code_point_def ends_authority_def is_slash_def code_point_def
  is_ascii_code_point_def is_plain_authority_code_point_def

lemma takeWhile_dropWhile_scheme:
  assumes "list_all is_scheme_code_point cs"
  shows "dropWhile is_scheme_code_point (cs @ CHR '':'' # rest) = CHR '':'' # rest"
    and "takeWhile is_scheme_code_point (cs @ CHR '':'' # rest) = cs"
    and "dropWhile is_scheme_code_point cs = []"
  using assms colon_not_scheme_code_point by (simp_all add: list_all_iff)

lemma alpha_is_scheme_code_point: "is_ascii_alpha c \<Longrightarrow> is_scheme_code_point c"
  by (simp add: is_scheme_code_point_def is_ascii_alphanumeric_def)

lemma strip_input_id:
  assumes "list_all (\<lambda>c. \<not> is_c0_control_or_space c) s"
  shows "strip_input s = s"
proof -
  have drop: "dropWhile is_c0_control_or_space xs = xs"
    if "list_all (\<lambda>c. \<not> is_c0_control_or_space c) xs" for xs
    using that by (cases xs) simp_all
  have "list_all (\<lambda>c. \<not> is_c0_control_or_space c) (rev s)"
    using assms by (simp add: list_all_iff)
  with assms have "rev (dropWhile is_c0_control_or_space
                          (rev (dropWhile is_c0_control_or_space s))) = s"
    by (simp add: drop)
  moreover have "filter (\<lambda>c. \<not> is_ascii_tab_or_newline c) s = s"
    using assms
    by (auto simp: list_all_iff is_ascii_tab_or_newline_def is_c0_control_or_space_def
        code_point_def intro!: filter_True)
  ultimately show ?thesis by (simp add: strip_input_def)
qed

lemma host_buffer_append:
  assumes "CHR '':'' \<notin> set xs" and "CHR ''['' \<notin> set xs" and "CHR '']'' \<notin> set xs"
  shows "host_buffer inside acc (xs @ rest) = host_buffer inside (acc @ xs) rest"
  using assms by (induction xs arbitrary: acc) auto

text \<open>What the host state has read when it stops.\<close>

lemma host_buffer_shape:
  shows "host_buffer inside acc s = (x, None) \<Longrightarrow> x = acc @ s"
    and "host_buffer inside acc s = (x, Some rest) \<Longrightarrow> acc @ s = x @ CHR '':'' # rest"
  by (induction inside acc s rule: host_buffer.induct) (auto split: if_splits)

lemma split_not_empty: "split s sep \<noteq> []"
  by (induction s) (auto split: list.splits)

lemma length_split: "length (split s sep) = Suc (length (filter (\<lambda>c. c = sep) s))"
proof (induction s)
  case Nil
  show ?case by simp
next
  case (Cons c cs)
  then show ?case
    using split_not_empty [of cs sep] by (auto split: list.splits)
qed

lemma split_contains: "sep \<in> set s \<longleftrightarrow> length (split s sep) \<noteq> 1"
proof -
  have "sep \<in> set s \<longleftrightarrow> filter (\<lambda>c. c = sep) s \<noteq> []"
    by (auto simp: filter_empty_conv)
  then show ?thesis by (simp add: length_split)
qed

lemma parse_scheme_http:
  "parse_scheme (''http://'' @ h) = Some (''http'', ''//'' @ h)"
  by (simp add: parse_scheme_def class_defs ascii_lowercase_def)

lemma http_special: "is_special ''http''" "''http'' \<noteq> ''file''"
  by (simp_all add: is_special_def)

lemma port_state_http:
  assumes "well_formed_port digits" and "digits \<noteq> ''80''"
  shows "port_state ''http'' digits = Some (Some (number_value 10 digits))"
proof -
  have "numeral_of 10 80 = ''80''"
    by code_simp
  with assms have "number_value 10 digits \<noteq> 80"
    by (auto simp: well_formed_port_def)
  with assms(1) show ?thesis
    by (simp add: well_formed_port_def port_state_def default_port_def)
qed

lemma authority_state_plain:
  assumes "list_all (\<lambda>c. \<not> ends_authority (is_special scheme) c) h"
    and "CHR ''@'' \<notin> set h"
  shows "authority_state idna scheme h = host_state idna scheme h"
proof -
  have authority: "takeWhile (\<lambda>c. \<not> ends_authority (is_special scheme) c) h = h"
    using assms(1) by (auto simp: takeWhile_eq_all_conv list_all_iff)
  have "takeWhile (\<lambda>c. c \<noteq> CHR ''@'') (rev h) = rev h"
    using assms(2) by (auto simp: takeWhile_eq_all_conv)
  then have buffer: "rev (takeWhile (\<lambda>c. c \<noteq> CHR ''@'') (rev h)) = h"
    by (simp only: rev_rev_ident)
  show ?thesis
    unfolding authority_state_def Let_def authority buffer using assms(2) by simp
qed

text \<open>After \<^verbatim>\<open>http://\<close>, a text of plain authority code points is the authority.\<close>

lemma basic_URL_parser_http:
  assumes chars: "list_all is_plain_authority_code_point h" and first: "h \<noteq> []"
  shows "basic_URL_parser idna (''http://'' @ h) = host_state idna ''http'' h"
proof -
  from chars have ok: "\<not> is_c0_control_or_space c" "\<not> ends_authority True c" "c \<noteq> CHR ''@''"
    if "c \<in> set h" for c
    using that by (simp_all add: list_all_iff is_plain_authority_code_point_def)
  have "list_all (\<lambda>c. \<not> is_c0_control_or_space c) ''http://''"
    by (simp add: class_defs)
  moreover have "list_all (\<lambda>c. \<not> is_c0_control_or_space c) h"
    using ok(1) by (simp add: list_all_iff)
  ultimately have "list_all (\<lambda>c. \<not> is_c0_control_or_space c) (''http://'' @ h)"
    by (simp only: list_all_append simp_thms)
  then have strip: "strip_input (''http://'' @ h) = ''http://'' @ h"
    by (rule strip_input_id)
  from first obtain c cs where h: "h = c # cs"
    by (cases h) auto
  with ok(2) [of c] have "\<not> is_slash c"
    by (auto simp: ends_authority_def is_slash_def)
  then have "dropWhile is_slash (CHR ''/'' # CHR ''/'' # c # cs) = c # cs"
    by (simp add: is_slash_def)
  with h have slashes: "dropWhile is_slash (''//'' @ h) = h"
    by simp
  have "list_all (\<lambda>c. \<not> ends_authority (is_special ''http'') c) h"
    using ok(2) by (simp add: list_all_iff http_special)
  moreover have "CHR ''@'' \<notin> set h"
    using ok(3) by blast
  ultimately have "authority_state idna ''http'' h = host_state idna ''http'' h"
    by (rule authority_state_plain)
  with slashes have "(if ''http'' = ''file'' then file_state idna (''//'' @ h)
          else if is_special ''http''
            then authority_state idna ''http'' (dropWhile is_slash (''//'' @ h))
          else if take 2 (''//'' @ h) = ''//''
            then authority_state idna ''http'' (drop 2 (''//'' @ h))
          else Some \<lparr>url_scheme = ''http'', url_host = None, url_port = None\<rparr>)
      = host_state idna ''http'' h"
    by (simp only: http_special if_True if_False)
  then show ?thesis
    by (simp only: basic_URL_parser_def strip parse_scheme_http option.case prod.case)
qed

subsection \<open>Stable origins are accepted as they are\<close>

text \<open>The parts of a stable, well-formed origin.\<close>

lemma host_parser_empty: "host_parser idna [] False = None"
  by (simp add: host_parser_def domain_to_ASCII_def is_plain_ascii_domain_def)

lemma stable_originE:
  assumes "stable_origin idna h" and "well_formed_origin h"
  obtains x after parsed where "host_buffer False [] h = (x, after)"
    and "list_all is_plain_authority_code_point h" and "x \<noteq> []"
    and "host_parser idna x False = Some parsed" and "host_serializer parsed = x"
    and "\<not> startsWith h ''http''"
    and "map ascii_lowercase x \<notin> set [''http'', ''https'', ''ws'', ''wss'', ''ftp'']"
    and "after = None \<and> h = x \<and> CHR ''.'' \<in> set x
         \<or> (\<exists>digits. after = Some digits \<and> h = x @ CHR '':'' # digits
               \<and> well_formed_port digits \<and> digits \<noteq> ''80'')"
proof -
  obtain x after where split: "host_buffer False [] h = (x, after)"
    by (cases "host_buffer False [] h")
  from assms(1) split have stable: "\<not> startsWith h ''http''"
    "map ascii_lowercase x \<notin> set [''http'', ''https'', ''ws'', ''wss'', ''ftp'']"
    "after \<noteq> Some ''80''"
    and parsed: "(case host_parser idna x False of
                    None \<Rightarrow> False
                  | Some parsed \<Rightarrow> host_serializer parsed = x)"
    by (simp_all add: stable_origin_def)
  from parsed obtain parsed where p: "host_parser idna x False = Some parsed"
    "host_serializer parsed = x"
    by (cases "host_parser idna x False") simp_all
  with host_parser_empty [of idna] have x: "x \<noteq> []"
    by auto
  from assms(2) split have chars: "list_all is_plain_authority_code_point h"
    and tail: "(case after of
                  None \<Rightarrow> CHR ''.'' \<in> set x
                | Some digits \<Rightarrow> well_formed_port digits)"
    by (simp_all add: well_formed_origin_def)
  have "after = None \<and> h = x \<and> CHR ''.'' \<in> set x
         \<or> (\<exists>digits. after = Some digits \<and> h = x @ CHR '':'' # digits
               \<and> well_formed_port digits \<and> digits \<noteq> ''80'')"
  proof (cases after)
    case None
    with split host_buffer_shape(1) [of False "[]" h x] tail show ?thesis by simp
  next
    case (Some digits)
    with split host_buffer_shape(2) [of False "[]" h x digits] tail stable(3) show ?thesis
      by simp
  qed
  with split chars x p stable(1,2) that show ?thesis by blast
qed

text \<open>The retried attempt accepts a stable origin and returns it.\<close>

lemma stable_origin_retried:
  assumes "stable_origin idna h" and "well_formed_origin h"
  shows "generic_try (URL_new idna) (''http://'' @ h) = Inr (success [h])"
proof -
  from assms obtain x after parsed where split: "host_buffer False [] h = (x, after)"
    and chars: "list_all is_plain_authority_code_point h" and x: "x \<noteq> []"
    and host: "host_parser idna x False = Some parsed" "host_serializer parsed = x"
    and after: "after = None \<and> h = x \<and> CHR ''.'' \<in> set x
         \<or> (\<exists>digits. after = Some digits \<and> h = x @ CHR '':'' # digits
               \<and> well_formed_port digits \<and> digits \<noteq> ''80'')"
    by (rule stable_originE)
  from after x have "h \<noteq> []" by auto
  with chars have parser: "basic_URL_parser idna (''http://'' @ h) = host_state idna ''http'' h"
    by (rule basic_URL_parser_http)
  from host(1) have host': "host_parser idna x (\<not> is_special ''http'') = Some parsed"
    by (simp add: http_special)
  from after show ?thesis
  proof
    assume a: "after = None \<and> h = x \<and> CHR ''.'' \<in> set x"
    with split x host' have "host_state idna ''http'' h
        = Some \<lparr>url_scheme = ''http'', url_host = Some parsed, url_port = None\<rparr>"
      by (simp add: host_state_def)
    with parser host(2) a
    have "URL_new idna (''http://'' @ h) = Inr \<lparr>protocol = ''http:'', host = h, port = []\<rparr>"
      by (simp add: URL_new_def)
    moreover from a have "length (split h CHR ''.'') \<noteq> 1"
      using split_contains [of "CHR ''.''" h] by simp
    ultimately show ?thesis
      using \<open>h \<noteq> []\<close> by (simp add: generic_try_def)
  next
    assume "\<exists>digits. after = Some digits \<and> h = x @ CHR '':'' # digits
               \<and> well_formed_port digits \<and> digits \<noteq> ''80''"
    then obtain digits where a: "after = Some digits" "h = x @ CHR '':'' # digits"
      and port: "well_formed_port digits" "digits \<noteq> ''80''"
      by blast
    from port(1) have numeral: "numeral_of 10 (number_value 10 digits) = digits"
      and digits: "digits \<noteq> []"
      by (simp_all add: well_formed_port_def)
    from split x host' a(1) port_state_http [OF port]
    have "host_state idna ''http'' h
        = Some \<lparr>url_scheme = ''http'', url_host = Some parsed,
                url_port = Some (number_value 10 digits)\<rparr>"
      by (simp add: host_state_def)
    with parser host(2) a(2) numeral
    have "URL_new idna (''http://'' @ h)
            = Inr \<lparr>protocol = ''http:'', host = h, port = digits\<rparr>"
      by (simp add: URL_new_def)
    then show ?thesis
      using \<open>h \<noteq> []\<close> digits by (simp add: generic_try_def)
  qed
qed

text \<open>
  The direct attempt on a stable origin fails: either the text has no scheme, or its
  host name is read as a scheme, which is \<^verbatim>\<open>file\<close> or not special, and the URL has no
  host.
\<close>

lemma bracket_not_scheme_code_point:
  "\<not> is_scheme_code_point CHR ''[''" "\<not> is_scheme_code_point CHR '']''"
  by (simp_all add: is_scheme_code_point_def is_ascii_alphanumeric_def is_ascii_alpha_def
      is_ascii_digit_def is_ascii_upper_alpha_def is_ascii_lower_alpha_def code_point_def)

lemma parse_scheme_split:
  assumes "parse_scheme h = Some (sch, rest)"
  obtains pre where "h = pre @ CHR '':'' # rest" and "sch = map ascii_lowercase pre"
    and "host_buffer False [] h = (pre, Some rest)"
proof -
  from assms obtain c cs where h: "h = c # cs" and alpha: "is_ascii_alpha c"
    and dropped: "dropWhile is_scheme_code_point cs = CHR '':'' # rest"
    and sch: "sch = map ascii_lowercase (c # takeWhile is_scheme_code_point cs)"
    by (auto simp: parse_scheme_def split: list.splits if_splits)
  let ?pre = "c # takeWhile is_scheme_code_point cs"
  have "cs = takeWhile is_scheme_code_point cs @ CHR '':'' # rest"
    using dropped takeWhile_dropWhile_id [of is_scheme_code_point cs] by simp
  with h have parts: "h = ?pre @ CHR '':'' # rest"
    by simp
  have pre: "is_scheme_code_point d" if "d \<in> set ?pre" for d
    using that alpha
    by (auto simp: is_scheme_code_point_def is_ascii_alphanumeric_def dest: set_takeWhileD)
  have "CHR '':'' \<notin> set ?pre"
    using pre [of "CHR '':''"] colon_not_scheme_code_point by (intro notI) simp
  moreover have "CHR ''['' \<notin> set ?pre"
    using pre [of "CHR ''[''"] bracket_not_scheme_code_point(1) by (intro notI) simp
  moreover have "CHR '']'' \<notin> set ?pre"
    using pre [of "CHR '']''"] bracket_not_scheme_code_point(2) by (intro notI) simp
  ultimately have "CHR '':'' \<notin> set ?pre" "CHR ''['' \<notin> set ?pre" "CHR '']'' \<notin> set ?pre"
    by this+
  then have "host_buffer False [] (?pre @ CHR '':'' # rest) = (?pre, Some rest)"
    using host_buffer_append [of ?pre False "[]" "CHR '':'' # rest"] by simp
  with parts have "host_buffer False [] h = (?pre, Some rest)"
    by simp
  with parts sch that show ?thesis by blast
qed

lemma file_state_digits:
  assumes "digits \<noteq> []" and "list_all is_ascii_digit digits"
  shows "file_state idna digits
           = Some \<lparr>url_scheme = ''file'', url_host = Some (Opaque_Host []), url_port = None\<rparr>"
    and "take 2 digits \<noteq> ''//''"
proof -
  from assms obtain d ds where digits: "digits = d # ds" and "is_ascii_digit d"
    by (cases digits) auto
  then have "\<not> is_slash d" and "d \<noteq> CHR ''/''"
    by (auto simp: class_defs)
  with digits show "file_state idna digits
           = Some \<lparr>url_scheme = ''file'', url_host = Some (Opaque_Host []), url_port = None\<rparr>"
    and "take 2 digits \<noteq> ''//''"
    by (cases ds; simp add: file_state_def)+
qed

lemma stable_origin_direct:
  assumes "stable_origin idna h" and "well_formed_origin h"
  shows "\<exists>e. generic_try (URL_new idna) h = Inl e"
proof -
  from assms obtain x after where split: "host_buffer False [] h = (x, after)"
    and chars: "list_all is_plain_authority_code_point h"
    and scheme: "map ascii_lowercase x \<notin> set [''http'', ''https'', ''ws'', ''wss'', ''ftp'']"
    and after: "after = None \<and> h = x \<and> CHR ''.'' \<in> set x
         \<or> (\<exists>digits. after = Some digits \<and> h = x @ CHR '':'' # digits
               \<and> well_formed_port digits \<and> digits \<noteq> ''80'')"
    by (rule stable_originE)
  from chars have "list_all (\<lambda>c. \<not> is_c0_control_or_space c) h"
    by (simp add: list_all_iff is_plain_authority_code_point_def)
  then have strip: "strip_input h = h"
    by (rule strip_input_id)
  have no_host: "\<exists>e. generic_try (URL_new idna) h = Inl e"
    if "basic_URL_parser idna h = None
        \<or> (\<exists>u. basic_URL_parser idna h = Some u \<and> url_port u = None
              \<and> (url_host u = None \<or> url_host u = Some (Opaque_Host [])))"
    using that by (auto simp: generic_try_def URL_new_def host_serializer_def)
  show ?thesis
  proof (cases "parse_scheme h")
    case None
    with strip have "basic_URL_parser idna h = None"
      by (simp add: basic_URL_parser_def)
    then show ?thesis using no_host by blast
  next
    case (Some result)
    obtain sch rest where result: "result = (sch, rest)"
      by (cases result)
    with Some obtain pre where sch: "sch = map ascii_lowercase pre"
      and "host_buffer False [] h = (pre, Some rest)"
      by (auto elim: parse_scheme_split)
    with split have "x = pre" "after = Some rest"
      by simp_all
    with after have port: "well_formed_port rest"
      by auto
    then have digits: "rest \<noteq> []" "list_all is_ascii_digit rest"
      by (simp_all add: well_formed_port_def)
    from scheme sch \<open>x = pre\<close> have "sch = ''file'' \<or> \<not> is_special sch"
      by (auto simp: is_special_def)
    with Some result strip file_state_digits(1) [OF digits, of idna]
      file_state_digits(2) [OF digits]
    have "\<exists>u. basic_URL_parser idna h = Some u \<and> url_port u = None
              \<and> (url_host u = None \<or> url_host u = Some (Opaque_Host []))"
      by (auto simp: basic_URL_parser_def)
    then show ?thesis using no_host by blast
  qed
qed

lemma stable_origin_accepted:
  assumes "stable_origin idna h" and "well_formed_origin h"
  shows "validateUrl (URL_new idna) h ''generic'' = Inr (success [h])"
proof -
  from assms(1) have "\<not> startsWith h ''http''"
    by (simp add: stable_origin_def split: prod.splits)
  moreover from assms obtain e where "generic_try (URL_new idna) h = Inl e"
    using stable_origin_direct by blast
  moreover from assms have "generic_try (URL_new idna) (''http://'' @ h) = Inr (success [h])"
    by (rule stable_origin_retried)
  ultimately show ?thesis
    by (simp only: validateUrl_generic_unfold sum.case if_False)
qed

subsection \<open>Numerals\<close>

text \<open>Numerals: the digits of a number, and the number of its digits.\<close>

lemma code_point_range: "0 \<le> code_point c" "code_point c < 256"
proof -
  have "code_point c = code_point c mod 256"
    by (simp add: code_point_def)
  moreover have "0 \<le> code_point c mod 256" "code_point c mod 256 < 256"
    by simp_all
  ultimately show "0 \<le> code_point c" "code_point c < 256"
    by simp_all
qed

lemma code_point_char_of:
  assumes "0 \<le> n" and "n < 256"
  shows "code_point (char_of n) = n"
  using assms by (simp add: code_point_def)

lemma digit_char_decimal:
  assumes "0 \<le> d" and "d < 10"
  shows "is_ascii_digit (digit_char d)" and "digit_value (digit_char d) = d"
proof -
  from assms have "code_point (digit_char d) = 48 + d"
    by (simp add: digit_char_def code_point_char_of)
  then show "is_ascii_digit (digit_char d)" and "digit_value (digit_char d) = d"
    using assms by (simp_all add: is_ascii_digit_def digit_value_def)
qed

lemma digit_char_hex:
  assumes "0 \<le> d" and "d < 16"
  shows "is_ascii_hex_digit (digit_char d)"
proof (cases "d < 10")
  case True
  with assms digit_char_decimal(1) show ?thesis
    by (simp add: is_ascii_hex_digit_def)
next
  case False
  with assms have "code_point (digit_char d) = 87 + d"
    by (simp add: digit_char_def code_point_char_of)
  with assms False show ?thesis
    by (simp add: is_ascii_hex_digit_def)
qed

lemma numeral_of_not_empty: "numeral_of radix n \<noteq> []"
  by (subst numeral_of.simps) simp

lemma number_value_snoc:
  "number_value radix (ds @ [d]) = number_value radix ds * radix + digit_value d"
  by (simp add: number_value_def)

lemma numeral_of_decimal:
  assumes "0 \<le> n"
  shows "list_all is_ascii_digit (numeral_of 10 n) \<and> number_value 10 (numeral_of 10 n) = n"
  using assms
proof (induction "10 :: int" n rule: numeral_of.induct)
  case (1 n)
  show ?case
  proof (cases "n < 10")
    case True
    with 1(2) digit_char_decimal [of n] show ?thesis
      by (subst (1 2) numeral_of.simps) (simp add: number_value_def)
  next
    case False
    with 1 have IH: "list_all is_ascii_digit (numeral_of 10 (n div 10))"
      "number_value 10 (numeral_of 10 (n div 10)) = n div 10"
      by simp_all
    have "0 \<le> n mod 10" "n mod 10 < 10"
      by simp_all
    with digit_char_decimal [of "n mod 10"]
    have last: "is_ascii_digit (digit_char (n mod 10))"
      "digit_value (digit_char (n mod 10)) = n mod 10"
      by simp_all
    from False have unfold: "numeral_of 10 n = numeral_of 10 (n div 10) @ [digit_char (n mod 10)]"
      by (subst numeral_of.simps) simp
    from IH last show ?thesis
      unfolding unfold by (simp add: number_value_snoc)
  qed
qed

lemma numeral_of_hex:
  assumes "0 \<le> n"
  shows "list_all is_ascii_hex_digit (numeral_of 16 n)"
  using assms
proof (induction "16 :: int" n rule: numeral_of.induct)
  case (1 n)
  show ?case
  proof (cases "n < 16")
    case True
    with 1(2) digit_char_hex [of n] show ?thesis
      by (subst numeral_of.simps) simp
  next
    case False
    with 1 have IH: "list_all is_ascii_hex_digit (numeral_of 16 (n div 16))"
      by simp
    have "0 \<le> n mod 16" "n mod 16 < 16"
      by simp_all
    with digit_char_hex [of "n mod 16"] have "is_ascii_hex_digit (digit_char (n mod 16))"
      by simp
    moreover from False
    have "numeral_of 16 n = numeral_of 16 (n div 16) @ [digit_char (n mod 16)]"
      by (subst numeral_of.simps) simp
    ultimately show ?thesis
      using IH by simp
  qed
qed

lemma hex_digit_value_not_negative: "is_ascii_hex_digit c \<Longrightarrow> 0 \<le> digit_value c"
  by (auto simp: is_ascii_hex_digit_def digit_value_def is_ascii_digit_def
      is_ascii_upper_alpha_def)

lemma decimal_digit_is_hex: "is_ascii_digit c \<Longrightarrow> is_ascii_hex_digit c"
  by (simp add: is_ascii_hex_digit_def)

lemma number_value_not_negative:
  assumes "list_all is_ascii_hex_digit ds" and "0 \<le> radix"
  shows "0 \<le> number_value radix ds"
  using assms(1)
proof (induction ds rule: rev_induct)
  case Nil
  show ?case by (simp add: number_value_def)
next
  case (snoc d ds)
  then have "0 \<le> number_value radix ds" and "0 \<le> digit_value d"
    by (simp_all add: hex_digit_value_not_negative)
  with assms(2) show ?case
    by (simp add: number_value_snoc)
qed

subsection \<open>Serialized hosts\<close>

text \<open>The code points of serialized hosts.\<close>

lemma code_point_space:
  assumes "code_point c \<le> 32" and "\<not> code_point c \<le> 31"
  shows "c = CHR '' ''"
proof -
  from assms have "code_point c = 32" by simp
  then have "(of_char c :: int) = of_char CHR '' ''"
    by (simp add: code_point_def)
  then show ?thesis by (simp only: of_char_eq_iff)
qed

lemma not_forbidden_host_name_code_point:
  assumes "\<not> is_forbidden_host_code_point c" and "\<not> is_c0_control c"
  shows "is_host_name_code_point c"
proof -
  have "\<not> is_c0_control_or_space c"
  proof
    assume "is_c0_control_or_space c"
    then have "code_point c \<le> 32"
      by (simp add: is_c0_control_or_space_def)
    moreover from assms have "\<not> code_point c \<le> 31" and "c \<noteq> CHR '' ''"
      by (simp_all add: is_forbidden_host_code_point_def is_c0_control_def)
    ultimately show False
      using code_point_space by blast
  qed
  with assms(1) show ?thesis
    by (simp add: is_host_name_code_point_def is_plain_authority_code_point_def
        is_forbidden_host_code_point_def ends_authority_def)
qed

lemma hex_digit_host_name_code_point:
  assumes "is_ascii_hex_digit c"
  shows "is_host_name_code_point c"
proof (rule not_forbidden_host_name_code_point)
  from assms show "\<not> is_forbidden_host_code_point c"
    by (auto simp: is_ascii_hex_digit_def is_ascii_digit_def is_forbidden_host_code_point_def
        code_point_def)
  from assms show "\<not> is_c0_control c"
    by (auto simp: is_ascii_hex_digit_def is_ascii_digit_def is_c0_control_def)
qed

lemma special_host_name_code_points:
  "is_host_name_code_point CHR ''.''" "is_host_name_code_point CHR ''%''"
  "is_plain_authority_code_point CHR '':''" "is_plain_authority_code_point CHR ''[''"
  "is_plain_authority_code_point CHR '']''"
  by (simp_all add: is_host_name_code_point_def class_defs)

lemma host_name_plain_authority:
  "is_host_name_code_point c \<Longrightarrow> is_plain_authority_code_point c"
  by (simp add: is_host_name_code_point_def)

text \<open>
  The host state reads a host name to its end: one without colon and square brackets,
  and one in square brackets with none inside.
\<close>

lemma host_buffer_host_name:
  assumes "list_all is_host_name_code_point x"
  shows "host_buffer inside acc (x @ rest) = host_buffer inside (acc @ x) rest"
proof (rule host_buffer_append)
  from assms show "CHR '':'' \<notin> set x" "CHR ''['' \<notin> set x" "CHR '']'' \<notin> set x"
    by (auto simp: list_all_iff is_host_name_code_point_def)
qed

lemma host_buffer_inside:
  assumes "CHR ''['' \<notin> set inner" and "CHR '']'' \<notin> set inner"
  shows "host_buffer True acc (inner @ rest) = host_buffer True (acc @ inner) rest"
  using assms by (induction inner arbitrary: acc) auto

lemma host_buffer_bracketed:
  assumes "list_all (\<lambda>c. is_ascii_hex_digit c \<or> c = CHR '':'') inner"
  shows "host_buffer False acc (''['' @ inner @ '']'' @ rest)
           = host_buffer False (acc @ ''['' @ inner @ '']'') rest"
proof -
  have "c \<noteq> CHR ''['' \<and> c \<noteq> CHR '']''" if "c \<in> set inner" for c
    using that assms hex_digit_host_name_code_point [of c]
    by (auto simp: list_all_iff is_host_name_code_point_def)
  then have "CHR ''['' \<notin> set inner" "CHR '']'' \<notin> set inner"
    by blast+
  from host_buffer_inside [OF this, of "acc @ ''[''" "'']'' @ rest"] show ?thesis
    by simp
qed

lemma bracketed_plain_authority:
  assumes "list_all (\<lambda>c. is_ascii_hex_digit c \<or> c = CHR '':'') inner"
  shows "list_all is_plain_authority_code_point (''['' @ inner @ '']'')"
  using assms special_host_name_code_points(3-5)
    hex_digit_host_name_code_point host_name_plain_authority
  by (auto simp: list_all_iff)

text \<open>Joined parts have the code points of the parts and of the separator.\<close>

lemma list_all_concat: "list_all (list_all P) xss \<Longrightarrow> list_all P (concat xss)"
  by (induction xss) simp_all

lemma list_all_join:
  assumes "list_all P sep" and "list_all (list_all P) parts"
  shows "list_all P (join sep parts)"
proof (cases parts)
  case Nil
  then show ?thesis by (simp add: join_def)
next
  case (Cons p ps)
  with assms have "list_all (list_all P) (map (\<lambda>q. sep @ q) ps)"
    by (auto simp: list_all_iff)
  then have "list_all P (concat (map (\<lambda>q. sep @ q) ps))"
    by (rule list_all_concat)
  with Cons assms(2) show ?thesis
    by (simp add: join_def)
qed

lemma ipv4_serializer_code_points:
  "list_all is_host_name_code_point (ipv4_serializer address)"
proof -
  have "list_all is_host_name_code_point (numeral_of 10 (n mod 256))" for n :: int
  proof -
    have "list_all is_ascii_digit (numeral_of 10 (n mod 256))"
      using numeral_of_decimal [of "n mod 256"] by simp
    then show ?thesis
      by (auto simp: list_all_iff
          intro: hex_digit_host_name_code_point decimal_digit_is_hex)
  qed
  then have "list_all (list_all is_host_name_code_point)
      (map (\<lambda>i. numeral_of 10 ((address div 256 ^ (3 - i)) mod 256)) [0 ..< 4])"
    by (simp add: list_all_iff)
  moreover have "list_all is_host_name_code_point ''.''"
    by (simp add: special_host_name_code_points)
  ultimately show ?thesis
    unfolding ipv4_serializer_def by (intro list_all_join)
qed

lemma ipv6_serializer_code_points:
  assumes "list_all (\<lambda>piece. 0 \<le> piece) address"
  shows "list_all (\<lambda>c. is_ascii_hex_digit c \<or> c = CHR '':'') (ipv6_serializer address)"
proof -
  let ?P = "\<lambda>c. is_ascii_hex_digit c \<or> c = CHR '':''"
  have piece: "list_all ?P (numeral_of 16 piece)" if "piece \<in> set address" for piece
  proof -
    from that assms have "0 \<le> piece"
      by (simp add: list_all_iff)
    then have "list_all is_ascii_hex_digit (numeral_of 16 piece)"
      by (rule numeral_of_hex)
    then show ?thesis
      by (simp add: list_all_iff)
  qed
  have pieces: "list_all (list_all ?P) (map (numeral_of 16) xs)" if "set xs \<subseteq> set address" for xs
    using that piece by (auto simp: list_all_iff)
  have sep: "list_all ?P '':''"
    by simp
  show ?thesis
  proof (cases "find_compress address")
    case None
    with list_all_join [OF sep pieces [of address]] show ?thesis
      by (simp add: ipv6_serializer_def)
  next
    case (Some compress)
    have "list_all (list_all ?P)
            (map (\<lambda>piece. numeral_of 16 piece @ '':'') (take compress address))"
      using piece by (auto simp: list_all_iff dest: in_set_takeD)
    then have before: "list_all ?P
        (concat (map (\<lambda>piece. numeral_of 16 piece @ '':'') (take compress address)))"
      by (rule list_all_concat)
    have "set (drop (compress + zero_run address compress) address) \<subseteq> set address"
      by (rule set_drop_subset)
    from list_all_join [OF sep pieces [OF this]] before Some show ?thesis
      by (simp add: ipv6_serializer_def)
  qed
qed

text \<open>The pieces of a parsed IPv6 address are not negative.\<close>

lemma hex_number_value_not_negative:
  "0 \<le> number_value 16 (takeWhile is_ascii_hex_digit s)"
proof (rule number_value_not_negative)
  show "list_all is_ascii_hex_digit (takeWhile is_ascii_hex_digit s)"
    by (auto simp: list_all_iff dest: set_takeWhileD)
qed simp

lemma ipv4_in_ipv6_not_negative:
  assumes "ipv4_in_ipv6 input = Some (high, low)"
  shows "0 \<le> high \<and> 0 \<le> low"
proof -
  let ?parts = "split input CHR ''.''"
  from assms obtain a b c d
    where numbers: "map (number_value 10) ?parts = [a, b, c, d]"
      and result: "high = a * 256 + b" "low = c * 256 + d"
      and digits: "list_all (\<lambda>p. list_all is_ascii_digit p) ?parts"
    by (auto simp: ipv4_in_ipv6_def Let_def list_all_iff split: if_splits list.splits)
  have "0 \<le> number_value 10 p" if "p \<in> set ?parts" for p
  proof (rule number_value_not_negative)
    from that digits have "list_all is_ascii_digit p"
      by (simp add: list_all_iff)
    then show "list_all is_ascii_hex_digit p"
      by (auto simp: list_all_iff intro: decimal_digit_is_hex)
  qed simp
  then have "\<forall>n \<in> set (map (number_value 10) ?parts). 0 \<le> n"
    by simp
  then have "0 \<le> a" "0 \<le> b" "0 \<le> c" "0 \<le> d"
    unfolding numbers by simp_all
  with result show ?thesis
    by simp
qed

lemma ipv6_pieces_not_negative:
  assumes "ipv6_pieces pieces compress input = Some (result, compress')"
    and "list_all (\<lambda>piece. 0 \<le> piece) pieces"
  shows "list_all (\<lambda>piece. 0 \<le> piece) result"
  using assms
proof (induction pieces compress input rule: ipv6_pieces.induct)
  case (1 pieces compress input)
  let ?digits = "takeWhile is_ascii_hex_digit (take 4 input)"
  have piece: "list_all (\<lambda>piece. 0 \<le> piece) (pieces @ [number_value 16 ?digits])"
    using "1.prems"(2) hex_number_value_not_negative [of "take 4 input"] by simp
  note unfolded = "1.prems"(1) [unfolded ipv6_pieces.simps [of pieces compress input]]
  show ?case
  proof (cases "input = []")
    case True
    with unfolded "1.prems"(2) show ?thesis by simp
  next
    case not_empty: False
    show ?thesis
    proof (cases "length pieces = 8")
      case True
      with unfolded not_empty show ?thesis by simp
    next
      case not_full: False
      show ?thesis
      proof (cases "hd input = CHR '':''")
        case True
        with unfolded not_empty not_full
        have none: "\<not> compress \<noteq> None"
          and "ipv6_pieces (pieces @ [0]) (Some (Suc (length pieces))) (tl input)
                 = Some (result, compress')"
          by (simp_all split: if_splits)
        moreover have "list_all (\<lambda>piece. 0 \<le> piece) (pieces @ [0])"
          using "1.prems"(2) by simp
        ultimately show ?thesis
          using "1.IH"(1) [OF not_empty not_full True none] by simp
      next
        case no_colon: False
        from unfolded not_empty not_full no_colon have digits: "?digits \<noteq> []"
          by (auto simp: Let_def split: if_splits)
        show ?thesis
        proof (cases "drop (length ?digits) input")
          case Nil
          with unfolded not_empty not_full no_colon digits
          have "result = pieces @ [number_value 16 ?digits]"
            by (simp add: Let_def)
          with piece show ?thesis by simp
        next
          case (Cons c cs)
          show ?thesis
          proof (cases "c = CHR ''.''")
            case True
            with unfolded not_empty not_full no_colon digits Cons
            obtain high low where "ipv4_in_ipv6 input = Some (high, low)"
              and "result = pieces @ [high, low]"
              by (auto simp: Let_def split: if_splits option.splits)
            with ipv4_in_ipv6_not_negative [of input high low] "1.prems"(2)
            show ?thesis by simp
          next
            case no_dot: False
            with unfolded not_empty not_full no_colon digits Cons
            have colon: "c = CHR '':''" and more: "cs \<noteq> []"
              and "ipv6_pieces (pieces @ [number_value 16 ?digits]) compress cs
                     = Some (result, compress')"
              by (simp_all add: Let_def split: if_splits)
            with piece show ?thesis
              using "1.IH"(2) [OF not_empty not_full no_colon refl digits Cons no_dot colon more]
              by simp
          qed
        qed
      qed
    qed
  qed
qed

lemma ipv6_parser_not_negative:
  assumes "ipv6_parser input = Some address"
  shows "list_all (\<lambda>piece. 0 \<le> piece) address"
proof -
  obtain r where r: "r = (if take 1 input = '':''
            then (if take 2 input = ''::'' then ipv6_pieces [0] (Some 1) (drop 2 input) else None)
            else ipv6_pieces [] None input)"
    by simp
  with assms have parser: "(case r of
        None \<Rightarrow> None
      | Some (pieces, None) \<Rightarrow> if length pieces = 8 then Some pieces else None
      | Some (pieces, Some compress) \<Rightarrow>
          Some (take compress pieces @ replicate (8 - length pieces) 0 @ drop compress pieces))
      = Some address"
    by (simp add: ipv6_parser_def)
  then obtain result compress' where some: "r = Some (result, compress')"
    by (cases r) auto
  have "ipv6_pieces [0] (Some 1) (drop 2 input) = Some (result, compress')
        \<or> ipv6_pieces [] None input = Some (result, compress')"
    using r some by (simp split: if_splits)
  then have result: "list_all (\<lambda>piece. 0 \<le> piece) result"
    using ipv6_pieces_not_negative [of "[0]" "Some 1" "drop 2 input" result compress']
      ipv6_pieces_not_negative [of "[]" None input result compress']
    by auto
  from parser some have "address = result
      \<or> (\<exists>k. address = take k result @ replicate (8 - length result) 0 @ drop k result)"
    by (auto split: option.splits if_splits)
  with result show ?thesis
    by (auto simp: list_all_iff dest!: in_set_takeD in_set_dropD)
qed

text \<open>The code points of an opaque host.\<close>

lemma percent_encode_byte_code_points:
  "list_all is_host_name_code_point (percent_encode_byte c)"
proof -
  have "list_all is_ascii_hex_digit ''0123456789ABCDEF''"
    by (simp add: is_ascii_hex_digit_def is_ascii_digit_def code_point_def)
  then have digit: "is_ascii_hex_digit (''0123456789ABCDEF'' ! i)" if "i < 16" for i
    using that by (simp add: list_all_length)
  have "0 \<le> code_point c div 16" "code_point c div 16 < 16"
    using code_point_range [of c] by simp_all
  then have high: "nat (code_point c div 16) < 16"
    by simp
  have "0 \<le> code_point c mod 16" "code_point c mod 16 < 16"
    by simp_all
  then have low: "nat (code_point c mod 16) < 16"
    by simp
  from digit [OF high] digit [OF low] show ?thesis
    by (simp add: percent_encode_byte_def hex_digit_host_name_code_point
        special_host_name_code_points)
qed

lemma opaque_host_parser_code_points:
  assumes "opaque_host_parser input = Some parsed"
  shows "list_all is_host_name_code_point (host_serializer parsed)"
proof -
  let ?encode = "\<lambda>c. if in_c0_control_percent_encode_set c then percent_encode_byte c else [c]"
  from assms have allowed: "\<not> list_ex is_forbidden_host_code_point input"
    and parsed: "parsed = Opaque_Host (concat (map ?encode input))"
    by (simp_all add: opaque_host_parser_def split: if_splits)
  have "list_all is_host_name_code_point (?encode c)" if "c \<in> set input" for c
  proof (cases "in_c0_control_percent_encode_set c")
    case True
    then show ?thesis
      by (simp add: percent_encode_byte_code_points)
  next
    case False
    then have "\<not> is_c0_control c"
      by (simp add: in_c0_control_percent_encode_set_def)
    moreover from that allowed have "\<not> is_forbidden_host_code_point c"
      by (auto simp: list_ex_iff)
    ultimately have "is_host_name_code_point c"
      by (intro not_forbidden_host_name_code_point)
    with False show ?thesis
      by simp
  qed
  then have "\<forall>c \<in> set input. list_all is_host_name_code_point (?encode c)"
    by blast
  then have "list_all (\<lambda>c. list_all is_host_name_code_point (?encode c)) input"
    by (simp only: Ball_set)
  then have "list_all (list_all is_host_name_code_point) (map ?encode input)"
    by (simp only: list.pred_map comp_def)
  then have "list_all is_host_name_code_point (concat (map ?encode input))"
    by (rule list_all_concat)
  with parsed show ?thesis
    by (simp add: host_serializer_def)
qed

text \<open>Every host that the parsers return is serialized in this shape.\<close>

lemma host_name_serialized:
  assumes "list_all is_host_name_code_point x"
  shows "is_serialized_host x"
  using assms by (simp add: is_serialized_host_def)

lemma bracketed_serialized:
  assumes "list_all (\<lambda>c. is_ascii_hex_digit c \<or> c = CHR '':'') inner"
  shows "is_serialized_host (''['' @ inner @ '']'')"
  using assms by (simp add: is_serialized_host_def)

text \<open>
  A serialized host has no code point that ends an authority or credentials, and the
  host state, wherever it meets one outside square brackets, takes it whole into its
  buffer and goes on outside square brackets.
\<close>

lemma serialized_host_read:
  assumes "is_serialized_host x"
  shows "list_all is_plain_authority_code_point x"
    and "host_buffer False buffer (x @ rest) = host_buffer False (buffer @ x) rest"
proof -
  let ?inner = "butlast (tl x)"
  have "list_all is_plain_authority_code_point x
      \<and> host_buffer False buffer (x @ rest) = host_buffer False (buffer @ x) rest"
  proof (cases "list_all is_host_name_code_point x")
    case True
    then have "list_all is_plain_authority_code_point x"
      by (auto simp: list_all_iff intro: host_name_plain_authority)
    with host_buffer_host_name [OF True, of False buffer rest] show ?thesis
      by simp
  next
    case False
    with assms have bracket: "take 1 x = ''[''" and long: "2 \<le> length x"
      and last: "last x = CHR '']''"
      and inner: "list_all (\<lambda>c. is_ascii_hex_digit c \<or> c = CHR '':'') ?inner"
      by (simp_all add: is_serialized_host_def)
    from bracket obtain cs where x: "x = CHR ''['' # cs"
      by (cases x) auto
    with long have "cs \<noteq> []"
      by auto
    then have "cs = butlast cs @ [last cs]"
      by simp
    with x last have "x = ''['' @ ?inner @ '']''"
      by (cases cs) auto
    with inner obtain inner where shape: "x = ''['' @ inner @ '']''"
      and inner: "list_all (\<lambda>c. is_ascii_hex_digit c \<or> c = CHR '':'') inner"
      by blast
    from bracketed_plain_authority [OF inner] host_buffer_bracketed [OF inner, of buffer rest]
    show ?thesis
      unfolding shape by simp
  qed
  then show "list_all is_plain_authority_code_point x"
    and "host_buffer False buffer (x @ rest) = host_buffer False (buffer @ x) rest"
    by simp_all
qed

lemma empty_host_serialized: "is_serialized_host (host_serializer (Opaque_Host []))"
  by (simp add: host_serializer_def host_name_serialized)

lemma host_parser_serialized:
  assumes "host_parser idna input isOpaque = Some parsed"
  shows "is_serialized_host (host_serializer parsed)"
proof (cases "take 1 input = ''[''")
  case True
  with assms obtain address where "ipv6_parser (butlast (tl input)) = Some address"
    and parsed: "parsed = IPv6 address"
    by (auto simp: host_parser_def split: if_splits)
  then have "list_all (\<lambda>piece. 0 \<le> piece) address"
    by (intro ipv6_parser_not_negative)
  then have "is_serialized_host (''['' @ ipv6_serializer address @ '']'')"
    by (intro bracketed_serialized ipv6_serializer_code_points)
  with parsed show ?thesis
    by (simp add: host_serializer_def)
next
  case no_bracket: False
  show ?thesis
  proof (cases isOpaque)
    case True
    with assms no_bracket have "opaque_host_parser input = Some parsed"
      by (simp add: host_parser_def)
    then show ?thesis
      by (intro host_name_serialized opaque_host_parser_code_points)
  next
    case False
    with assms no_bracket obtain asciiDomain
      where allowed: "\<not> list_ex is_forbidden_domain_code_point asciiDomain"
        and parsed: "parsed = Domain asciiDomain \<or> (\<exists>address. parsed = IPv4 address)"
      by (auto simp: host_parser_def split: option.splits if_splits)
    from parsed show ?thesis
    proof
      assume domain: "parsed = Domain asciiDomain"
      have "is_host_name_code_point c" if "c \<in> set asciiDomain" for c
      proof (rule not_forbidden_host_name_code_point)
        from that allowed have "\<not> is_forbidden_domain_code_point c"
          by (auto simp: list_ex_iff)
        then show "\<not> is_forbidden_host_code_point c" "\<not> is_c0_control c"
          by (simp_all add: is_forbidden_domain_code_point_def)
      qed
      then have "list_all is_host_name_code_point asciiDomain"
        by (simp add: list_all_iff)
      with domain show ?thesis
        by (simp add: host_serializer_def host_name_serialized)
    next
      assume "\<exists>address. parsed = IPv4 address"
      then obtain address where "parsed = IPv4 address" ..
      then show ?thesis
        by (simp add: host_serializer_def host_name_serialized ipv4_serializer_code_points)
    qed
  qed
qed

text \<open>The host and the port of a parsed URL.\<close>

lemma port_state_range:
  assumes "port_state scheme buffer = Some (Some p)"
  shows "0 \<le> p \<and> p \<le> 65535"
proof -
  from assms have digits: "list_all is_ascii_digit buffer"
    and p: "p = number_value 10 buffer" and "\<not> 65535 < number_value 10 buffer"
    by (simp_all add: port_state_def split: if_splits)
  from digits have "list_all is_ascii_hex_digit buffer"
    by (auto simp: list_all_iff intro: decimal_digit_is_hex)
  then have "0 \<le> number_value 10 buffer"
    by (rule number_value_not_negative) simp
  with p \<open>\<not> 65535 < number_value 10 buffer\<close> show ?thesis
    by simp
qed

lemma host_state_parsed:
  assumes "host_state idna scheme input = Some url"
  shows "\<exists>parsed. url_host url = Some parsed \<and> is_serialized_host (host_serializer parsed)"
    and "url_port url = Some p \<Longrightarrow> 0 \<le> p \<and> p \<le> 65535"
proof -
  obtain buffer after where buffer: "host_buffer False [] input = (buffer, after)"
    by (cases "host_buffer False [] input")
  with assms have "\<exists>parsed. host_parser idna buffer (\<not> is_special scheme) = Some parsed
      \<and> url_host url = Some parsed
      \<and> (url_port url = None \<or> (\<exists>digits. port_state scheme digits = Some (url_port url)))"
    by (auto simp: host_state_def split: option.splits if_splits)
  then obtain parsed where "host_parser idna buffer (\<not> is_special scheme) = Some parsed"
    and host: "url_host url = Some parsed"
    and port: "url_port url = None \<or> (\<exists>digits. port_state scheme digits = Some (url_port url))"
    by auto
  then show "\<exists>parsed. url_host url = Some parsed \<and> is_serialized_host (host_serializer parsed)"
    by (auto intro: host_parser_serialized)
  from port show "url_port url = Some p \<Longrightarrow> 0 \<le> p \<and> p \<le> 65535"
    by (auto dest: port_state_range)
qed

lemma file_state_parsed:
  assumes "file_state idna remaining = Some url"
  shows "\<exists>parsed. url_host url = Some parsed \<and> is_serialized_host (host_serializer parsed)"
    and "url_port url = None"
proof -
  from assms have "url_port url = None \<and> (url_host url = Some (Opaque_Host [])
      \<or> (\<exists>buffer parsed. host_parser idna buffer False = Some parsed \<and> url_host url = Some parsed))"
    by (auto simp: file_state_def file_host_state_def Let_def split: if_splits option.splits)
  then show "\<exists>parsed. url_host url = Some parsed \<and> is_serialized_host (host_serializer parsed)"
    and "url_port url = None"
    by (auto intro: host_parser_serialized empty_host_serialized)
qed

lemma basic_URL_parser_parsed:
  assumes "basic_URL_parser idna input = Some url"
  shows "url_host url = Some parsed \<Longrightarrow> is_serialized_host (host_serializer parsed)"
    and "url_port url = Some p \<Longrightarrow> 0 \<le> p \<and> p \<le> 65535"
proof -
  from assms consider
      (file_scheme) remaining where "file_state idna remaining = Some url"
    | (authority) scheme buffer where "host_state idna scheme buffer = Some url"
    | (no_host) "url_host url = None" "url_port url = None"
    by (auto simp: basic_URL_parser_def authority_state_def Let_def
        split: option.splits if_splits)
  then have "(url_host url = Some parsed \<longrightarrow> is_serialized_host (host_serializer parsed))
      \<and> (url_port url = Some p \<longrightarrow> 0 \<le> p \<and> p \<le> 65535)"
  proof cases
    case file_scheme
    from file_state_parsed [OF this] show ?thesis by auto
  next
    case authority
    from host_state_parsed(1) [OF this] host_state_parsed(2) [OF this, of p]
    show ?thesis by auto
  next
    case no_host
    then show ?thesis by simp
  qed
  then show "url_host url = Some parsed \<Longrightarrow> is_serialized_host (host_serializer parsed)"
    and "url_port url = Some p \<Longrightarrow> 0 \<le> p \<and> p \<le> 65535"
    by simp_all
qed

subsection \<open>Returned origins are well formed\<close>

text \<open>Every origin that the generic kind returns is well formed.\<close>

lemma serialized_origin_well_formed:
  assumes host: "is_serialized_host x"
    and port: "case p of None \<Rightarrow> CHR ''.'' \<in> set x | Some v \<Rightarrow> 0 \<le> v \<and> v \<le> 65535"
  shows "well_formed_origin (case p of None \<Rightarrow> x | Some v \<Rightarrow> x @ '':'' @ numeral_of 10 v)"
proof (cases p)
  case None
  from host have "host_buffer False [] (x @ []) = host_buffer False ([] @ x) []"
    by (rule serialized_host_read(2))
  then have "host_buffer False [] x = (x, None)"
    by simp
  with None host port show ?thesis
    by (simp add: well_formed_origin_def serialized_host_read(1))
next
  case (Some v)
  let ?digits = "numeral_of 10 v"
  from Some port have v: "0 \<le> v" "v \<le> 65535"
    by simp_all
  from numeral_of_decimal [OF v(1)]
  have digits: "list_all is_ascii_digit ?digits" and number: "number_value 10 ?digits = v"
    by simp_all
  with v(2) have "well_formed_port ?digits"
    by (simp add: well_formed_port_def numeral_of_not_empty)
  moreover from host
  have "host_buffer False [] (x @ '':'' @ ?digits) = host_buffer False ([] @ x) ('':'' @ ?digits)"
    by (rule serialized_host_read(2))
  then have "host_buffer False [] (x @ '':'' @ ?digits) = (x, Some ?digits)"
    by simp
  moreover from digits have "list_all is_plain_authority_code_point ?digits"
    by (auto simp: list_all_iff
        intro: host_name_plain_authority hex_digit_host_name_code_point decimal_digit_is_hex)
  with host have "list_all is_plain_authority_code_point (x @ '':'' @ ?digits)"
    by (simp add: serialized_host_read(1) special_host_name_code_points)
  ultimately show ?thesis
    using Some by (simp add: well_formed_origin_def)
qed

lemma generic_try_well_formed:
  assumes "generic_try (URL_new idna) t = Inr (success [h])"
  shows "well_formed_origin h"
proof -
  from assms obtain url where url: "basic_URL_parser idna t = Some url"
    by (auto simp: generic_try_def URL_new_def split: option.splits sum.splits)
  let ?text = "\<lambda>parsed. case url_port url of
        None \<Rightarrow> host_serializer parsed
      | Some p \<Rightarrow> host_serializer parsed @ '':'' @ numeral_of 10 p"
  from assms url obtain parsed where parsed: "url_host url = Some parsed"
    and h: "h = ?text parsed"
    and dot: "\<not> (length (split h CHR ''.'') = 1 \<and> url_port url = None)"
    by (auto simp: generic_try_def URL_new_def Let_def numeral_of_not_empty
        split: option.splits if_splits)
  from basic_URL_parser_parsed(1) [OF url parsed]
  have host: "is_serialized_host (host_serializer parsed)" .
  have "case url_port url of
          None \<Rightarrow> CHR ''.'' \<in> set (host_serializer parsed)
        | Some p \<Rightarrow> 0 \<le> p \<and> p \<le> 65535"
  proof (cases "url_port url")
    case None
    with h dot have "length (split (host_serializer parsed) CHR ''.'') \<noteq> 1"
      by simp
    with None show ?thesis
      by (simp add: split_contains)
  next
    case (Some p)
    with basic_URL_parser_parsed(2) [OF url, of p] show ?thesis
      by simp
  qed
  with host have "well_formed_origin (?text parsed)"
    by (rule serialized_origin_well_formed)
  with h show ?thesis
    by simp
qed

lemma validated_origin_well_formed:
  assumes "validateUrl (URL_new idna) s ''generic'' = Inr (success [h])"
  shows "well_formed_origin h"
proof -
  from assms have "generic_try (URL_new idna) s = Inr (success [h])
      \<or> generic_try (URL_new idna) (''http://'' @ s) = Inr (success [h])"
    by (simp add: validateUrl_generic_unfold split: sum.splits if_splits)
  then show ?thesis
    by (auto intro: generic_try_well_formed)
qed

subsection \<open>Accepted origins are stable\<close>

text \<open>A well-formed port, read as the host of a special URL, is an IPv4 address.\<close>

lemma digit_facts:
  assumes "is_ascii_digit c"
  shows "\<not> is_ascii_upper_alpha c" and "is_ascii_code_point c"
    and "\<not> is_forbidden_domain_code_point c" and "is_radix_digit 10 c"
    and "c \<noteq> CHR ''%''" and "c \<noteq> CHR ''.''" and "c \<noteq> CHR ''x''" and "c \<noteq> CHR ''X''"
    and "c \<noteq> CHR ''[''" and "\<not> is_slash c" and "\<not> ends_authority special c"
    and "c \<noteq> CHR ''@''" and "is_host_name_code_point c"
proof -
  from assms show "is_host_name_code_point c"
    by (intro hex_digit_host_name_code_point decimal_digit_is_hex)
  from assms show "\<not> is_ascii_upper_alpha c" and "is_ascii_code_point c"
    and "\<not> is_forbidden_domain_code_point c" and "is_radix_digit 10 c"
    and "c \<noteq> CHR ''%''" and "c \<noteq> CHR ''.''" and "c \<noteq> CHR ''x''" and "c \<noteq> CHR ''X''"
    and "c \<noteq> CHR ''[''" and "\<not> is_slash c" and "\<not> ends_authority special c"
    and "c \<noteq> CHR ''@''"
    by (auto simp: class_defs is_ascii_hex_digit_def is_radix_digit_def digit_value_def)
qed

lemma percent_decode_id: "CHR ''%'' \<notin> set s \<Longrightarrow> percent_decode s = s"
  by (induction s rule: percent_decode.induct) auto

lemma split_no_separator: "sep \<notin> set s \<Longrightarrow> split s sep = [s]"
  by (induction s) auto

lemma digits_read:
  assumes "list_all is_ascii_digit digits"
  shows "host_buffer False [] digits = (digits, None)"
proof -
  from assms have "list_all is_host_name_code_point digits"
    by (auto simp: list_all_iff intro: digit_facts(13))
  from host_buffer_host_name [OF this, of False "[]" "[]"] show ?thesis
    by simp
qed

lemma numeral_of_no_leading_zero:
  assumes "0 < n"
  shows "take 1 (numeral_of 10 n) \<noteq> ''0''"
  using assms
proof (induction "10 :: int" n rule: numeral_of.induct)
  case (1 n)
  show ?case
  proof (cases "n < 10")
    case True
    with 1(2) have "code_point (digit_char n) = 48 + n"
      by (simp add: digit_char_def code_point_char_of)
    with 1(2) have "code_point (digit_char n) \<noteq> code_point CHR ''0''"
      by (simp add: code_point_def)
    then have "digit_char n \<noteq> CHR ''0''"
      by auto
    with True show ?thesis
      by (subst numeral_of.simps) simp
  next
    case False
    with 1 have "take 1 (numeral_of 10 (n div 10)) \<noteq> ''0''"
      by simp
    moreover from False
    have "numeral_of 10 n = numeral_of 10 (n div 10) @ [digit_char (n mod 10)]"
      by (subst numeral_of.simps) simp
    ultimately show ?thesis
      using numeral_of_not_empty [of 10 "n div 10"]
      by (cases "numeral_of 10 (n div 10)") simp_all
  qed
qed

lemma well_formed_port_facts:
  assumes "well_formed_port digits"
  shows "digits \<noteq> []" and "list_all is_ascii_digit digits"
    and "0 \<le> number_value 10 digits" and "number_value 10 digits \<le> 65535"
    and "numeral_of 10 (number_value 10 digits) = digits"
    and "\<not> (2 \<le> length digits \<and> take 1 digits = ''0'')"
proof -
  let ?n = "number_value 10 digits"
  from assms show facts: "digits \<noteq> []" "list_all is_ascii_digit digits" "?n \<le> 65535"
    "numeral_of 10 ?n = digits"
    by (simp_all add: well_formed_port_def)
  from facts(2) have "list_all is_ascii_hex_digit digits"
    by (auto simp: list_all_iff intro: decimal_digit_is_hex)
  then show "0 \<le> ?n"
    by (rule number_value_not_negative) simp
  show "\<not> (2 \<le> length digits \<and> take 1 digits = ''0'')"
  proof (cases "?n < 10")
    case True
    then have "numeral_of 10 ?n = [digit_char ?n]"
      by (subst numeral_of.simps) simp
    with facts(4) have "length digits = 1"
      by (metis length_Cons list.size(3) One_nat_def)
    then show ?thesis
      by simp
  next
    case False
    then have "0 < ?n"
      by simp
    from numeral_of_no_leading_zero [OF this] facts(4) show ?thesis
      by simp
  qed
qed

lemma ipv4_number_parser_port:
  assumes "well_formed_port digits"
  shows "ipv4_number_parser digits = Some (number_value 10 digits)"
proof -
  note facts = well_formed_port_facts [OF assms]
  have not_digit: "take 2 digits \<noteq> [CHR ''0'', c]" if "\<not> is_ascii_digit c" for c
  proof
    assume "take 2 digits = [CHR ''0'', c]"
    then have "c \<in> set (take 2 digits)"
      by simp
    then have "c \<in> set digits"
      by (rule in_set_takeD)
    with facts(2) that show False
      by (simp add: list_all_iff)
  qed
  have "\<not> is_ascii_digit CHR ''x''" "\<not> is_ascii_digit CHR ''X''"
    by (simp_all add: is_ascii_digit_def code_point_def)
  then have "take 2 digits \<noteq> ''0x''" "take 2 digits \<noteq> ''0X''"
    by (simp_all only: not_digit not_False_eq_True)
  moreover from facts(2) have "list_all (is_radix_digit 10) digits"
    by (auto simp: list_all_iff intro: digit_facts(4))
  ultimately show ?thesis
    using facts(1,6) by (auto simp: ipv4_number_parser_def)
qed

lemma host_parser_port:
  assumes "well_formed_port digits"
  shows "host_parser idna digits False = Some (IPv4 (number_value 10 digits))"
proof -
  note facts = well_formed_port_facts [OF assms]
  from facts(2) have digit: "is_ascii_digit c" if "c \<in> set digits" for c
    using that by (simp add: list_all_iff)
  from facts(1) obtain d ds where digits: "digits = d # ds"
    by (cases digits) auto
  with digit have d: "is_ascii_digit d"
    by simp
  have parts: "split digits CHR ''.'' = [digits]"
    using digit digit_facts(6) by (intro split_no_separator) blast
  have lower: "map ascii_lowercase digits = digits"
    using digit digit_facts(1) by (intro map_idI) (simp add: ascii_lowercase_def)
  have decoded: "percent_decode digits = digits"
    using digit digit_facts(5) by (intro percent_decode_id) blast
  have "list_all is_ascii_code_point digits"
    using digit digit_facts(2) by (simp add: list_all_iff)
  moreover have "map ascii_lowercase (take 4 digits) \<noteq> ''xn--''"
    using digits digit_facts(1,7) [OF d] by (simp add: ascii_lowercase_def)
  ultimately have "is_plain_ascii_domain digits"
    by (simp add: is_plain_ascii_domain_def parts)
  with lower facts(1) have ascii: "domain_to_ASCII idna digits = Some digits"
    by (simp add: domain_to_ASCII_def)
  have allowed: "\<not> list_ex is_forbidden_domain_code_point digits"
    using digit digit_facts(3) by (auto simp: list_ex_iff)
  have number: "ends_in_a_number digits"
    using facts(1,2) by (simp add: ends_in_a_number_def parts)
  have "ipv4_parser digits = Some (number_value 10 digits)"
    using facts(4) by (simp add: ipv4_parser_def parts ipv4_number_parser_port [OF assms])
  moreover have "take 1 digits \<noteq> ''[''"
    using digits digit_facts(9) [OF d] by simp
  ultimately show ?thesis
    by (simp add: host_parser_def decoded ascii allowed number)
qed

text \<open>The parts of a well-formed origin.\<close>

lemma well_formed_originE:
  assumes "well_formed_origin h"
  obtains x where "host_buffer False [] h = (x, None)" and "h = x" and "CHR ''.'' \<in> set x"
  | x digits where "host_buffer False [] h = (x, Some digits)" and "h = x @ CHR '':'' # digits"
      and "well_formed_port digits"
proof -
  obtain x after where split: "host_buffer False [] h = (x, after)"
    by (cases "host_buffer False [] h")
  show ?thesis
  proof (cases after)
    case None
    with assms split host_buffer_shape(1) [of False "[]" h x] that(1) show ?thesis
      by (simp add: well_formed_origin_def)
  next
    case (Some digits)
    with assms split host_buffer_shape(2) [of False "[]" h x digits] that(2) show ?thesis
      by (simp add: well_formed_origin_def)
  qed
qed

lemma well_formed_origin_plain:
  assumes "well_formed_origin h"
  shows "list_all is_plain_authority_code_point h" and "h \<noteq> []" and "strip_input h = h"
proof -
  from assms show chars: "list_all is_plain_authority_code_point h"
    by (simp add: well_formed_origin_def split: prod.splits)
  from assms show "h \<noteq> []"
    by (rule well_formed_originE) auto
  from chars have "list_all (\<lambda>c. \<not> is_c0_control_or_space c) h"
    by (simp add: list_all_iff is_plain_authority_code_point_def)
  then show "strip_input h = h"
    by (rule strip_input_id)
qed

text \<open>
  The direct attempt on a well-formed origin. If the origin has a scheme, what follows
  the colon is its port, which the constructor reads as a host or not at all: the URL
  has no port, and its \<^verbatim>\<open>host\<close> is not the origin.
\<close>

lemma authority_state_port:
  assumes "well_formed_port digits" and "is_special sch"
  shows "authority_state idna sch (dropWhile is_slash digits)
           = Some \<lparr>url_scheme = sch, url_host = Some (IPv4 (number_value 10 digits)),
                   url_port = None\<rparr>"
proof -
  note facts = well_formed_port_facts [OF assms(1)]
  from facts(2) have digit: "is_ascii_digit c" if "c \<in> set digits" for c
    using that by (simp add: list_all_iff)
  from facts(1) obtain d ds where digits: "digits = d # ds"
    by (cases digits) auto
  with digit digit_facts(10) [of d] have slashes: "dropWhile is_slash digits = digits"
    by simp
  have "list_all (\<lambda>c. \<not> ends_authority (is_special sch) c) digits"
    using digit digit_facts(11) by (simp add: list_all_iff)
  moreover have "CHR ''@'' \<notin> set digits"
    using digit digit_facts(12) by blast
  ultimately have "authority_state idna sch digits = host_state idna sch digits"
    by (rule authority_state_plain)
  with assms(2) facts(1) show ?thesis
    by (simp add: slashes host_state_def digits_read [OF facts(2)]
        host_parser_port [OF assms(1)])
qed

lemma direct_port_free:
  assumes "well_formed_origin h" and "basic_URL_parser idna h = Some url"
  shows "url_port url = None" and "\<exists>x digits. host_buffer False [] h = (x, Some digits)"
proof -
  note plain = well_formed_origin_plain [OF assms(1)]
  from assms(2) plain(3) obtain sch rest where scheme: "parse_scheme h = Some (sch, rest)"
    by (auto simp: basic_URL_parser_def split: option.splits)
  then obtain pre where split: "host_buffer False [] h = (pre, Some rest)"
    by (rule parse_scheme_split)
  then show "\<exists>x digits. host_buffer False [] h = (x, Some digits)"
    by blast
  from assms(1) split have port: "well_formed_port rest"
    by (simp add: well_formed_origin_def)
  note facts = well_formed_port_facts [OF port]
  from assms(2) scheme plain(3)
    file_state_digits(1) [OF facts(1,2), of idna] file_state_digits(2) [OF facts(1,2)]
    authority_state_port [OF port, of sch idna]
  show "url_port url = None"
    by (auto simp: basic_URL_parser_def split: if_splits)
qed

lemma direct_not_itself:
  assumes "well_formed_origin h"
  shows "generic_try (URL_new idna) h \<noteq> Inr (success [h])"
proof
  assume accepted: "generic_try (URL_new idna) h = Inr (success [h])"
  then obtain url where url: "basic_URL_parser idna h = Some url"
    by (auto simp: generic_try_def URL_new_def split: option.splits sum.splits)
  note direct = direct_port_free [OF assms url]
  from accepted url direct(1) obtain parsed where parsed: "url_host url = Some parsed"
    and h: "h = host_serializer parsed"
    by (auto simp: generic_try_def URL_new_def Let_def split: option.splits if_splits)
  from basic_URL_parser_parsed(1) [OF url parsed]
  have "host_buffer False [] (host_serializer parsed @ [])
          = host_buffer False ([] @ host_serializer parsed) []"
    by (rule serialized_host_read(2))
  with h have "host_buffer False [] h = (h, None)"
    by simp
  with direct(2) show False
    by simp
qed

text \<open>
  The direct attempt accepts a well-formed origin whose host name is a special scheme
  other than \<^verbatim>\<open>file\<close>.
\<close>

lemma lowercase_alpha:
  assumes "is_ascii_lower_alpha (ascii_lowercase c)"
  shows "is_ascii_alpha c"
  using assms
  by (cases "is_ascii_upper_alpha c") (simp_all add: is_ascii_alpha_def ascii_lowercase_def)

lemma special_scheme_letters:
  assumes "sch \<in> set [''http'', ''https'', ''ws'', ''wss'', ''ftp'']"
  shows "list_all is_ascii_lower_alpha sch" and "sch \<noteq> []" and "is_special sch"
    and "sch \<noteq> ''file''"
proof -
  have "list_all (\<lambda>sch. list_all is_ascii_lower_alpha sch \<and> sch \<noteq> [] \<and> is_special sch
          \<and> sch \<noteq> ''file'') [''http'', ''https'', ''ws'', ''wss'', ''ftp'']"
    by (simp add: is_ascii_lower_alpha_def code_point_def is_special_def)
  with assms show "list_all is_ascii_lower_alpha sch" and "sch \<noteq> []" and "is_special sch"
    and "sch \<noteq> ''file''"
    unfolding list_all_iff by blast+
qed

lemma ipv4_serializer_dot: "CHR ''.'' \<in> set (ipv4_serializer address)"
proof -
  have "[0 ..< 4] = [0, 1, 2, 3]"
    by (simp add: upt_rec)
  then show ?thesis
    by (simp add: ipv4_serializer_def join_def)
qed

lemma special_scheme_host_accepted:
  assumes wf: "well_formed_origin h" and split: "host_buffer False [] h = (x, after)"
    and special: "map ascii_lowercase x \<in> set [''http'', ''https'', ''ws'', ''wss'', ''ftp'']"
  shows "\<exists>r. generic_try (URL_new idna) h = Inr r"
proof -
  let ?sch = "map ascii_lowercase x"
  note sch = special_scheme_letters [OF special]
  from sch(1) have alpha: "is_ascii_alpha c" if "c \<in> set x" for c
    using that by (auto simp: list_all_iff intro: lowercase_alpha)
  have "\<not> is_ascii_alpha CHR ''.''"
    by (simp add: class_defs)
  with alpha have no_dot: "CHR ''.'' \<notin> set x"
    by blast
  from sch(2) obtain c cs where x: "x = c # cs"
    by (cases x) auto
  from wf split no_dot obtain digits where h: "h = x @ CHR '':'' # digits"
    and port: "well_formed_port digits"
    by (auto elim!: well_formed_originE)
  have "list_all is_scheme_code_point cs"
    using alpha x by (auto simp: list_all_iff intro: alpha_is_scheme_code_point)
  from takeWhile_dropWhile_scheme(1,2) [OF this, of digits] alpha [of c] x
  have "parse_scheme (x @ CHR '':'' # digits) = Some (?sch, digits)"
    by (simp add: parse_scheme_def)
  with h sch(3,4) well_formed_origin_plain(3) [OF wf]
  have "basic_URL_parser idna h = authority_state idna ?sch (dropWhile is_slash digits)"
    by (simp add: basic_URL_parser_def)
  with authority_state_port [OF port sch(3), of idna]
  have "URL_new idna h = Inr \<lparr>protocol = ?sch @ '':'',
          host = ipv4_serializer (number_value 10 digits), port = []\<rparr>"
    by (simp add: URL_new_def host_serializer_def)
  moreover from ipv4_serializer_dot [of "number_value 10 digits"]
  have "length (split (ipv4_serializer (number_value 10 digits)) CHR ''.'') \<noteq> 1"
    and "ipv4_serializer (number_value 10 digits) \<noteq> []"
    by (auto simp: split_contains)
  ultimately show ?thesis
    by (simp add: generic_try_def)
qed

text \<open>What the retried attempt returns for a well-formed origin.\<close>

lemma port_state_http_80: "port_state ''http'' ''80'' = Some None"
  by code_simp

lemma retried_shape:
  assumes wf: "well_formed_origin h" and split: "host_buffer False [] h = (x, after)"
    and retried: "generic_try (URL_new idna) (''http://'' @ h) = Inr (success [h'])"
  shows "\<exists>parsed. host_parser idna x False = Some parsed
           \<and> host_buffer False [] h'
               = (host_serializer parsed, if after = Some ''80'' then None else after)"
proof -
  note plain = well_formed_origin_plain [OF wf]
  from plain(1,2) have parser: "basic_URL_parser idna (''http://'' @ h) = host_state idna ''http'' h"
    by (rule basic_URL_parser_http)
  with retried obtain url where url: "host_state idna ''http'' h = Some url"
    by (auto simp: generic_try_def URL_new_def split: option.splits sum.splits)
  with split obtain parsed where host: "host_parser idna x False = Some parsed"
    and url_host: "url_host url = Some parsed"
    by (auto simp: host_state_def http_special split: option.splits if_splits)
  from host_parser_serialized [OF host] have read:
    "host_buffer False [] (host_serializer parsed @ rest)
       = host_buffer False (host_serializer parsed) rest"
    for rest
    using serialized_host_read(2) [of "host_serializer parsed" "[]" rest] by simp
  from retried parser url url_host
  have h': "h' = (case url_port url of
                   None \<Rightarrow> host_serializer parsed
                 | Some p \<Rightarrow> host_serializer parsed @ '':'' @ numeral_of 10 p)"
    by (auto simp: generic_try_def URL_new_def Let_def split: option.splits if_splits)
  have "url_port url = None \<and> (after = None \<or> after = Some ''80'')
      \<or> (\<exists>digits. after = Some digits \<and> digits \<noteq> ''80''
            \<and> url_port url = Some (number_value 10 digits) \<and> well_formed_port digits)"
  proof (cases after)
    case None
    with url split show ?thesis
      by (auto simp: host_state_def split: option.splits if_splits)
  next
    case (Some digits)
    with wf split have port: "well_formed_port digits"
      by (simp add: well_formed_origin_def)
    show ?thesis
    proof (cases "digits = ''80''")
      case True
      with url split Some port_state_http_80 show ?thesis
        by (auto simp: host_state_def split: option.splits if_splits)
    next
      case False
      with url split Some port port_state_http [OF port False] show ?thesis
        by (auto simp: host_state_def split: option.splits if_splits)
    qed
  qed
  then have "host_buffer False [] h'
      = (host_serializer parsed, if after = Some ''80'' then None else after)"
  proof
    assume "url_port url = None \<and> (after = None \<or> after = Some ''80'')"
    with h' read [of "[]"] show ?thesis
      by auto
  next
    assume "\<exists>digits. after = Some digits \<and> digits \<noteq> ''80''
            \<and> url_port url = Some (number_value 10 digits) \<and> well_formed_port digits"
    then obtain digits where port: "after = Some digits" "digits \<noteq> ''80''"
      "url_port url = Some (number_value 10 digits)" "well_formed_port digits"
      by auto
    from well_formed_port_facts(5) [OF port(4)] h' port(3)
    have "h' = host_serializer parsed @ CHR '':'' # digits"
      by simp
    with read [of "CHR '':'' # digits"] port(1,2) show ?thesis
      by simp
  qed
  with host show ?thesis
    by blast
qed

text \<open>A well-formed origin that is accepted as it is, is stable.\<close>

lemma accepted_origin_stable:
  assumes wf: "well_formed_origin h"
    and accepted: "validateUrl (URL_new idna) h ''generic'' = Inr (success [h])"
  shows "stable_origin idna h"
proof -
  obtain x after where split: "host_buffer False [] h = (x, after)"
    by (cases "host_buffer False [] h")
  from accepted direct_not_itself [OF wf, of idna]
  have direct: "\<exists>e. generic_try (URL_new idna) h = Inl e"
    and prefix: "\<not> startsWith h ''http''"
    and retried: "generic_try (URL_new idna) (''http://'' @ h) = Inr (success [h])"
    by (auto simp: validateUrl_generic_unfold split: sum.splits if_splits)
  from retried_shape [OF wf split retried] split
  obtain parsed where "host_parser idna x False = Some parsed"
    and "host_serializer parsed = x" and "after \<noteq> Some ''80''"
    by (auto split: if_splits)
  moreover have "map ascii_lowercase x \<notin> set [''http'', ''https'', ''ws'', ''wss'', ''ftp'']"
  proof
    assume "map ascii_lowercase x \<in> set [''http'', ''https'', ''ws'', ''wss'', ''ftp'']"
    from special_scheme_host_accepted [OF wf split this, of idna] direct show False
      by auto
  qed
  ultimately show ?thesis
    using split prefix by (simp add: stable_origin_def)
qed

text \<open>So the origins that are returned and accepted as they are, are the stable ones.\<close>

lemma validated_origin_stable_iff:
  assumes "validateUrl (URL_new idna) s ''generic'' = Inr (success [h])"
  shows "validateUrl (URL_new idna) h ''generic'' = Inr (success [h]) \<longleftrightarrow> stable_origin idna h"
proof -
  from assms have "well_formed_origin h"
    by (rule validated_origin_well_formed)
  then show ?thesis
    using accepted_origin_stable stable_origin_accepted by blast
qed

text \<open>
  Some stable origins: a domain, hosts with a port, IPv6 and IPv4 addresses, a host
  named \<^verbatim>\<open>file\<close>, and a Punycode label on a platform whose \<^verbatim>\<open>ToASCII\<close> leaves it as
  it is. And some that are not stable.
\<close>

lemma stable_origin_examples:
  shows "stable_origin idna ''example.com''"
    and "stable_origin idna ''localhost:3000''"
    and "stable_origin idna ''127.0.0.1:8080''"
    and "stable_origin idna ''[::1]:3000''"
    and "stable_origin idna ''[2001:db8::1]:8443''"
    and "stable_origin idna ''file:3000''"
    and "stable_origin Some ''xn--nxasmq6b.com''"
  by code_simp+

lemma unstable_origin_examples:
  shows "\<not> stable_origin idna ''httpbin.org''"
    and "\<not> stable_origin idna ''example.com:80''"
    and "\<not> stable_origin idna ''ws:3000''"
    and "\<not> stable_origin idna ''Ex.com''"
  by code_simp+

section \<open>Displayed origins of the other kinds\<close>

lemma ascii_lowercase_upper:
  assumes "is_ascii_upper_alpha c"
  shows "is_ascii_lower_alpha (ascii_lowercase c)"
proof -
  from assms have "code_point (char_of (code_point c + 32)) = code_point c + 32"
    by (simp add: code_point_def is_ascii_upper_alpha_def)
  with assms show ?thesis
    by (simp add: ascii_lowercase_def is_ascii_lower_alpha_def is_ascii_upper_alpha_def)
qed

lemma lower_not_upper: "is_ascii_lower_alpha c \<Longrightarrow> \<not> is_ascii_upper_alpha c"
  by (simp add: is_ascii_lower_alpha_def is_ascii_upper_alpha_def)

lemma ascii_lowercase_facts:
  shows "is_ascii_alpha c \<Longrightarrow> is_ascii_alpha (ascii_lowercase c)"
    and "is_scheme_code_point c \<Longrightarrow> is_scheme_code_point (ascii_lowercase c)"
    and "ascii_lowercase (ascii_lowercase c) = ascii_lowercase c"
proof -
  show "is_ascii_alpha c \<Longrightarrow> is_ascii_alpha (ascii_lowercase c)"
    using ascii_lowercase_upper [of c]
    by (cases "is_ascii_upper_alpha c") (simp_all add: is_ascii_alpha_def ascii_lowercase_def)
  show "is_scheme_code_point c \<Longrightarrow> is_scheme_code_point (ascii_lowercase c)"
    using ascii_lowercase_upper [of c]
    by (cases "is_ascii_upper_alpha c")
       (simp_all add: is_scheme_code_point_def is_ascii_alphanumeric_def is_ascii_alpha_def
          ascii_lowercase_def)
  show "ascii_lowercase (ascii_lowercase c) = ascii_lowercase c"
    using ascii_lowercase_upper [of c] lower_not_upper [of "ascii_lowercase c"]
    by (cases "is_ascii_upper_alpha c") (simp_all add: ascii_lowercase_def)
qed

lemma parse_scheme_shape:
  assumes "parse_scheme s = Some (sch, rest)"
  shows "\<exists>c cs. sch = c # cs \<and> is_ascii_alpha c \<and> list_all is_scheme_code_point cs
                \<and> map ascii_lowercase sch = sch"
proof -
  from assms obtain c cs where s: "s = c # cs"
    by (cases s) (auto simp: parse_scheme_def)
  with assms have alpha: "is_ascii_alpha c"
    and sch: "sch = map ascii_lowercase (c # takeWhile is_scheme_code_point cs)"
    by (auto simp: parse_scheme_def split: if_splits list.splits)
  have "list_all is_scheme_code_point (map ascii_lowercase (takeWhile is_scheme_code_point cs))"
    by (auto simp: list_all_iff dest: set_takeWhileD ascii_lowercase_facts(2))
  moreover have "map ascii_lowercase sch = sch"
    unfolding sch by (simp add: ascii_lowercase_facts(3))
  ultimately show ?thesis
    using alpha sch ascii_lowercase_facts(1) by simp
qed

lemma scheme_code_point_facts:
  assumes "is_scheme_code_point c"
  shows "\<not> is_c0_control_or_space c"
  using assms by (auto simp: class_defs)

lemma URL_new_scheme_only:
  assumes "sch = c # cs" and "is_ascii_alpha c" and "list_all is_scheme_code_point cs"
    and "map ascii_lowercase sch = sch"
    and "sch \<notin> {''http'', ''https'', ''ws'', ''wss'', ''ftp''}"
  shows "\<exists>h. URL_new idna (sch @ ''://'') = Inr \<lparr>protocol = sch @ '':'', host = h, port = []\<rparr>"
proof -
  have "list_all (\<lambda>c. \<not> is_c0_control_or_space c) sch"
    using assms(1-3)
    by (auto simp: list_all_iff dest: scheme_code_point_facts alpha_is_scheme_code_point)
  moreover have "list_all (\<lambda>c. \<not> is_c0_control_or_space c) ''://''"
    by (simp add: class_defs)
  ultimately have "list_all (\<lambda>c. \<not> is_c0_control_or_space c) (sch @ ''://'')"
    by (simp only: list_all_append simp_thms)
  then have strip: "strip_input (sch @ ''://'') = sch @ ''://''"
    by (rule strip_input_id)
  have "parse_scheme (c # cs @ CHR '':'' # ''//'') = Some (map ascii_lowercase (c # cs), ''//'')"
    using assms(2) by (simp add: parse_scheme_def takeWhile_dropWhile_scheme(1,2) [OF assms(3)])
  with assms(1,4) have scheme: "parse_scheme (sch @ ''://'') = Some (sch, ''//'')"
    by simp
  have file_url: "file_state idna ''//''
                = Some \<lparr>url_scheme = ''file'', url_host = Some (Opaque_Host []), url_port = None\<rparr>"
    by (simp add: file_state_def file_host_state_def is_slash_def is_windows_drive_letter_def)
  have other: "authority_state idna sch []
                 = Some \<lparr>url_scheme = sch, url_host = Some (Opaque_Host []), url_port = None\<rparr>"
    if "\<not> is_special sch"
    using that
    by (simp add: authority_state_def host_state_def host_parser_def opaque_host_parser_def)
  have "sch = ''file'' \<or> \<not> is_special sch"
    using assms(5) by (auto simp: is_special_def)
  then have "basic_URL_parser idna (sch @ ''://'')
               = Some \<lparr>url_scheme = sch, url_host = Some (Opaque_Host []), url_port = None\<rparr>"
    using file_url other by (auto simp: basic_URL_parser_def strip scheme)
  then show ?thesis
    by (simp add: URL_new_def host_serializer_def)
qed

lemma custom_scheme_redisplayed:
  assumes "validateUrl (URL_new idna) s ''custom-scheme'' = Inr (success ps)"
    and "originDisplay ''custom-scheme'' ps = Some shown"
    and "ps \<notin> {[''http''], [''https''], [''ws''], [''wss''], [''ftp'']}"
  shows "validateUrl (URL_new idna) shown ''custom-scheme'' = Inr (success ps)"
proof -
  from assms(1) obtain url where url: "URL_new idna s = Inr url"
    and ps: "ps = [butlast (protocol url)]"
    by (auto simp: validateUrl_custom_scheme_unfold split: sum.splits)
  from url obtain u where u: "basic_URL_parser idna s = Some u"
    and "protocol url = url_scheme u @ '':''"
    by (auto simp: URL_new_def split: option.splits)
  with ps have ps': "ps = [url_scheme u]" by simp
  from basic_URL_parser_scheme [OF u] obtain rest where
    "parse_scheme (strip_input s) = Some (url_scheme u, rest)" by blast
  then obtain c cs where shape: "url_scheme u = c # cs" "is_ascii_alpha c"
    "list_all is_scheme_code_point cs" "map ascii_lowercase (url_scheme u) = url_scheme u"
    using parse_scheme_shape by blast
  from assms(3) ps' have "url_scheme u \<notin> {''http'', ''https'', ''ws'', ''wss'', ''ftp''}"
    by simp
  from URL_new_scheme_only [OF shape this] obtain h where
    "URL_new idna (url_scheme u @ ''://'')
       = Inr \<lparr>protocol = url_scheme u @ '':'', host = h, port = []\<rparr>"
    by blast
  moreover from assms(2) ps' have "shown = url_scheme u @ ''://''"
    by (simp add: originDisplay_def index_def)
  ultimately show ?thesis
    using ps' by (simp add: validateUrl_custom_scheme_unfold)
qed

lemma special_scheme_redisplayed:
  assumes "ps \<in> {[''http''], [''https''], [''ws''], [''wss''], [''ftp'']}"
    and "originDisplay ''custom-scheme'' ps = Some shown"
  shows "validateUrl (URL_new idna) shown ''custom-scheme'' = Inr (error ''Invalid scheme.'')"
proof -
  have rejected:
    "validateUrl (URL_new idna) ''http://'' ''custom-scheme'' = Inr (error ''Invalid scheme.'')"
    "validateUrl (URL_new idna) ''https://'' ''custom-scheme'' = Inr (error ''Invalid scheme.'')"
    "validateUrl (URL_new idna) ''ws://'' ''custom-scheme'' = Inr (error ''Invalid scheme.'')"
    "validateUrl (URL_new idna) ''wss://'' ''custom-scheme'' = Inr (error ''Invalid scheme.'')"
    "validateUrl (URL_new idna) ''ftp://'' ''custom-scheme'' = Inr (error ''Invalid scheme.'')"
    by code_simp+
  from assms rejected show ?thesis
    by (auto simp: originDisplay_def index_def)
qed

lemma custom_scheme_redisplayed_iff:
  assumes "validateUrl (URL_new idna) s ''custom-scheme'' = Inr (success ps)"
    and "originDisplay ''custom-scheme'' ps = Some shown"
  shows "validateUrl (URL_new idna) shown ''custom-scheme'' = Inr (success ps)
           \<longleftrightarrow> ps \<notin> {[''http''], [''https''], [''ws''], [''wss''], [''ftp'']}"
proof (cases "ps \<in> {[''http''], [''https''], [''ws''], [''wss''], [''ftp'']}")
  case True
  from special_scheme_redisplayed [OF True assms(2), of idna] True show ?thesis
    by simp
next
  case False
  from custom_scheme_redisplayed [OF assms False] False show ?thesis
    by simp
qed

lemma netlify_redisplayed:
  assumes "validateUrl newURL s ''netlify'' = Inr (success ps)"
    and "originDisplay ''netlify'' ps = Some shown"
  shows "validateUrl newURL shown ''netlify'' = Inr (success ps)"
  using assms by (auto simp: validateUrl_netlify originDisplay_def index_def)

lemma vercel_redisplayed:
  assumes "validateUrl newURL s ''vercel'' = Inr (success ps)"
    and "originDisplay ''vercel'' ps = Some shown"
  shows "validateUrl newURL shown ''vercel'' = Inr (success ps)"
  using assms by (auto simp: validateUrl_vercel originDisplay_def index_def)

section \<open>The claims\<close>

text \<open>
  C1, as amended. For the generic kind, a parse attempt whose URL has a \<^verbatim>\<open>host\<close> of
  one dot-separated label and an empty \<^verbatim>\<open>port\<close> is a parse failure: the input is
  rejected with "Invalid URL." when it starts with \<^verbatim>\<open>http\<close>, and otherwise the
  result is that of validating the input with \<^verbatim>\<open>http://\<close> prepended.
  \<^verbatim>\<open>validate("localhost", "generic")\<close> fails, \<^verbatim>\<open>validate("localhost:3000", "generic")\<close>
  succeeds with params \<^verbatim>\<open>["localhost:3000"]\<close> and \<^verbatim>\<open>validate("example.com", "generic")\<close>
  succeeds with params \<^verbatim>\<open>["example.com"]\<close>.
\<close>

theorem generic_bare_host_is_parse_failure:
  "(newURL input = Inr url \<and> length (split (host url) CHR ''.'') = 1 \<and> port url = [] \<longrightarrow>
      (\<exists>e. generic_try newURL input = Inl e) \<and>
      validateUrl newURL input ''generic'' =
        (if startsWith input ''http'' then Inr (error ''Invalid URL.'')
         else validateUrl newURL (''http://'' @ input) ''generic''))
   \<and> validateUrl (URL_new idna) ''localhost'' ''generic'' = Inr (error ''Invalid URL.'')
   \<and> validateUrl (URL_new idna) ''localhost:3000'' ''generic''
       = Inr (success [''localhost:3000''])
   \<and> validateUrl (URL_new idna) ''example.com'' ''generic'' = Inr (success [''example.com''])"
proof -
  have general: "(\<exists>e. generic_try newURL input = Inl e) \<and>
      validateUrl newURL input ''generic'' =
        (if startsWith input ''http'' then Inr (error ''Invalid URL.'')
         else validateUrl newURL (''http://'' @ input) ''generic'')"
    if "newURL input = Inr url" "length (split (host url) CHR ''.'') = 1" "port url = []"
  proof -
    from that obtain e where e: "generic_try newURL input = Inl e"
      using generic_try_bare_host by blast
    then have "validateUrl newURL input ''generic'' =
        (if startsWith input ''http'' then Inr (error ''Invalid URL.'')
         else (case generic_try newURL (''http://'' @ input) of
                 Inr r \<Rightarrow> Inr r
               | Inl e' \<Rightarrow> Inr (error ''Invalid URL.'')))"
      by (simp only: validateUrl_generic_unfold sum.case)
    then have "validateUrl newURL input ''generic'' =
        (if startsWith input ''http'' then Inr (error ''Invalid URL.'')
         else validateUrl newURL (''http://'' @ input) ''generic'')"
      by (simp only: validateUrl_generic_retried)
    with e show ?thesis by (intro conjI exI)
  qed
  have localhost:
    "validateUrl (URL_new idna) ''localhost'' ''generic'' = Inr (error ''Invalid URL.'')"
    by code_simp
  have localhost_port:
    "validateUrl (URL_new idna) ''localhost:3000'' ''generic''
       = Inr (success [''localhost:3000''])"
    by code_simp
  have example:
    "validateUrl (URL_new idna) ''example.com'' ''generic'' = Inr (success [''example.com''])"
    by code_simp
  from general have bare: "newURL input = Inr url \<and> length (split (host url) CHR ''.'') = 1
      \<and> port url = [] \<longrightarrow>
      (\<exists>e. generic_try newURL input = Inl e) \<and>
      validateUrl newURL input ''generic'' =
        (if startsWith input ''http'' then Inr (error ''Invalid URL.'')
         else validateUrl newURL (''http://'' @ input) ''generic'')"
    by (intro impI, elim conjE)
  show ?thesis
    by (intro conjI bare localhost localhost_port example)
qed

text \<open>
  The hypothesis of the amended claim holds at \<^verbatim>\<open>http://localhost\<close>, which is rejected.
\<close>

theorem generic_bare_host_is_parse_failure_witness:
  "URL_new no_idna ''http://localhost''
     = Inr \<lparr>protocol = ''http:'', host = ''localhost'', port = []\<rparr>
   \<and> length (split (host \<lparr>protocol = ''http:'', host = ''localhost'', port = []\<rparr>) CHR ''.'') = 1
   \<and> port \<lparr>protocol = ''http:'', host = ''localhost'', port = []\<rparr> = []
   \<and> startsWith ''http://localhost'' ''http''
   \<and> validateUrl (URL_new no_idna) ''http://localhost'' ''generic''
       = Inr (error ''Invalid URL.'')"
proof -
  let ?url = "\<lparr>protocol = ''http:'', host = ''localhost'', port = []\<rparr>"
  have parsed: "URL_new no_idna ''http://localhost'' = Inr ?url"
    by code_simp
  have bare: "length (split (host ?url) CHR ''.'') = 1" and no_port: "port ?url = []"
    by simp_all
  have http: "startsWith ''http://localhost'' ''http''"
    by (simp add: startsWith_def)
  note bare_host = generic_bare_host_is_parse_failure
    [of "URL_new no_idna" "''http://localhost''" ?url no_idna,
      THEN conjunct1, THEN mp, OF conjI [OF parsed conjI [OF bare no_port]], THEN conjunct2]
  with http have rejected: "validateUrl (URL_new no_idna) ''http://localhost'' ''generic''
          = Inr (error ''Invalid URL.'')"
    by (simp only: if_True)
  show ?thesis
    by (intro conjI parsed bare no_port http rejected)
qed

text \<open>
  C1 as stated fails: the URL of \<^verbatim>\<open>a.b://localhost\<close> has the host \<^verbatim>\<open>localhost\<close>, one
  label, and no port, yet the input is accepted, through the retry, with params
  \<^verbatim>\<open>["a.b"]\<close>.
\<close>

theorem generic_bare_host_counterexample:
  "URL_new no_idna ''a.b://localhost''
     = Inr \<lparr>protocol = ''a.b:'', host = ''localhost'', port = []\<rparr>
   \<and> length (split ''localhost'' CHR ''.'') = 1
   \<and> validateUrl (URL_new no_idna) ''a.b://localhost'' ''generic'' = Inr (success [''a.b''])"
  by (intro conjI; code_simp)

text \<open>
  C2. For the generic kind, when the direct attempt fails (an empty host is such a
  failure), \<^verbatim>\<open>validateUrl\<close> calls itself once with \<^verbatim>\<open>http://\<close> prepended, and only if
  the input does not start with \<^verbatim>\<open>http\<close>; if the retried attempt fails too, or the
  input starts with \<^verbatim>\<open>http\<close>, the result is the error "Invalid URL.".
  \<^verbatim>\<open>validate("example.com", "generic")\<close> succeeds through the retry with params
  \<^verbatim>\<open>["example.com"]\<close>.
\<close>

theorem generic_retry_once:
  "(generic_try newURL input = Inl e \<longrightarrow>
      validateUrl_traced newURL input ''generic'' =
        (if startsWith input ''http'' then (Inr (error ''Invalid URL.''), 0)
         else (case generic_try newURL (''http://'' @ input) of
                 Inr r \<Rightarrow> (Inr r, 1)
               | Inl e' \<Rightarrow> (Inr (error ''Invalid URL.''), 1))))
   \<and> fst (validateUrl_traced newURL input ''generic'') = validateUrl newURL input ''generic''
   \<and> (newURL input = Inr url \<and> host url = [] \<longrightarrow>
        generic_try newURL input = Inl (Error ''missing host''))
   \<and> generic_try (URL_new idna) ''example.com'' = Inl TypeError
   \<and> validateUrl_traced (URL_new idna) ''example.com'' ''generic''
       = (Inr (success [''example.com'']), 1)"
proof -
  have retry: "generic_try newURL input = Inl e \<longrightarrow>
      validateUrl_traced newURL input ''generic'' =
        (if startsWith input ''http'' then (Inr (error ''Invalid URL.''), 0)
         else (case generic_try newURL (''http://'' @ input) of
                 Inr r \<Rightarrow> (Inr r, 1)
               | Inl e' \<Rightarrow> (Inr (error ''Invalid URL.''), 1)))"
    by (simp add: validateUrl_traced_generic_unfold)
  have same: "fst (validateUrl_traced newURL input ''generic'')
                = validateUrl newURL input ''generic''"
    by (rule validateUrl_traced_fst)
  have missing: "newURL input = Inr url \<and> host url = [] \<longrightarrow>
                   generic_try newURL input = Inl (Error ''missing host'')"
    by (simp add: generic_try_def)
  have direct: "generic_try (URL_new idna) ''example.com'' = Inl TypeError"
    by code_simp
  have retried: "validateUrl_traced (URL_new idna) ''example.com'' ''generic''
                   = (Inr (success [''example.com'']), 1)"
    by code_simp
  show ?thesis
    by (intro conjI retry same missing direct retried)
qed

text \<open>
  Both hypotheses hold at \<^verbatim>\<open>localhost:3000\<close>: its URL has the scheme \<^verbatim>\<open>localhost\<close> and
  no host, so the direct attempt fails and the retry gives the result.
\<close>

theorem generic_retry_once_witness:
  "generic_try (URL_new no_idna) ''localhost:3000'' = Inl (Error ''missing host'')
   \<and> URL_new no_idna ''localhost:3000''
       = Inr \<lparr>protocol = ''localhost:'', host = [], port = []\<rparr>
   \<and> host \<lparr>protocol = ''localhost:'', host = [], port = []\<rparr> = []
   \<and> validateUrl_traced (URL_new no_idna) ''localhost:3000'' ''generic''
       = (Inr (success [''localhost:3000'']), 1)"
proof -
  let ?url = "\<lparr>protocol = ''localhost:'', host = [], port = []\<rparr>"
  have parsed: "URL_new no_idna ''localhost:3000'' = Inr ?url"
    by code_simp
  have empty: "host ?url = []"
    by simp
  note retry_once = generic_retry_once
    [of "URL_new no_idna" "''localhost:3000''" "Error ''missing host''" ?url no_idna]
  have failed: "generic_try (URL_new no_idna) ''localhost:3000'' = Inl (Error ''missing host'')"
    by (rule retry_once [THEN conjunct2, THEN conjunct2, THEN conjunct1, THEN mp,
          OF conjI [OF parsed empty]])
  have no_http: "\<not> startsWith ''localhost:3000'' ''http''"
    by (simp add: startsWith_def)
  have second: "generic_try (URL_new no_idna) (''http://'' @ ''localhost:3000'')
                  = Inr (success [''localhost:3000''])"
    by code_simp
  from retry_once [THEN conjunct1, THEN mp, OF failed] no_http second
  have traced: "validateUrl_traced (URL_new no_idna) ''localhost:3000'' ''generic''
          = (Inr (success [''localhost:3000'']), 1)"
    by (simp only: if_False sum.case)
  show ?thesis
    by (intro conjI failed parsed empty traced)
qed

text \<open>
  C3, as amended. For the custom-scheme kind, \<^verbatim>\<open>validateUrl\<close> succeeds on every input
  the URL constructor accepts, with params the one-element list of the \<^verbatim>\<open>protocol\<close> of
  the URL without its final colon; that is the text before the first colon of the input,
  in ASCII lower case, once the parser has removed leading and trailing C0 control or
  space and every tab and newline. \<^verbatim>\<open>validate("myapp://callback", "custom-scheme")\<close>
  yields params \<^verbatim>\<open>["myapp"]\<close>. On an input the constructor rejects, the result is the
  error "Invalid scheme.".
\<close>

theorem custom_scheme_params:
  "(newURL input = Inr url \<longrightarrow>
      validateUrl newURL input ''custom-scheme'' = Inr (success [butlast (protocol url)]))
   \<and> (newURL input = Inl e \<longrightarrow>
        validateUrl newURL input ''custom-scheme'' = Inr (error ''Invalid scheme.''))
   \<and> (URL_new idna input = Inr url' \<longrightarrow>
        butlast (protocol url')
          = map ascii_lowercase (takeWhile (\<lambda>c. c \<noteq> CHR '':'') (strip_input input)))
   \<and> validateUrl (URL_new idna) ''myapp://callback'' ''custom-scheme''
       = Inr (success [''myapp''])
   \<and> validateUrl (URL_new idna) ''not a url'' ''custom-scheme''
       = Inr (error ''Invalid scheme.'')"
proof -
  have accepted: "newURL input = Inr url \<longrightarrow>
      validateUrl newURL input ''custom-scheme'' = Inr (success [butlast (protocol url)])"
    by (simp add: validateUrl_custom_scheme_unfold)
  have rejected: "newURL input = Inl e \<longrightarrow>
      validateUrl newURL input ''custom-scheme'' = Inr (error ''Invalid scheme.'')"
    by (simp add: validateUrl_custom_scheme_unfold)
  have scheme: "URL_new idna input = Inr url' \<longrightarrow>
      butlast (protocol url')
        = map ascii_lowercase (takeWhile (\<lambda>c. c \<noteq> CHR '':'') (strip_input input))"
    by (intro impI, rule URL_new_protocol)
  have myapp: "validateUrl (URL_new idna) ''myapp://callback'' ''custom-scheme''
                 = Inr (success [''myapp''])"
    by code_simp
  have not_a_url: "validateUrl (URL_new idna) ''not a url'' ''custom-scheme''
                     = Inr (error ''Invalid scheme.'')"
    by code_simp
  show ?thesis
    by (intro conjI accepted rejected scheme myapp not_a_url)
qed

text \<open>
  The hypotheses hold at \<^verbatim>\<open>MyApp://callback\<close>, which the constructor accepts, and at
  \<^verbatim>\<open>callback\<close>, which it rejects.
\<close>

theorem custom_scheme_params_witness:
  "URL_new no_idna ''MyApp://callback''
     = Inr \<lparr>protocol = ''myapp:'', host = ''callback'', port = []\<rparr>
   \<and> validateUrl (URL_new no_idna) ''MyApp://callback'' ''custom-scheme''
       = Inr (success [''myapp''])
   \<and> map ascii_lowercase (takeWhile (\<lambda>c. c \<noteq> CHR '':'') (strip_input ''MyApp://callback''))
       = ''myapp''
   \<and> URL_new no_idna ''callback'' = Inl TypeError
   \<and> validateUrl (URL_new no_idna) ''callback'' ''custom-scheme''
       = Inr (error ''Invalid scheme.'')"
proof -
  let ?url = "\<lparr>protocol = ''myapp:'', host = ''callback'', port = []\<rparr>"
  have parsed: "URL_new no_idna ''MyApp://callback'' = Inr ?url"
    by code_simp
  have thrown: "URL_new no_idna ''callback'' = Inl TypeError"
    by code_simp
  note params = custom_scheme_params
    [of "URL_new no_idna" "''MyApp://callback''" ?url TypeError no_idna ?url]
  from params [THEN conjunct1, THEN mp, OF parsed]
  have accepted: "validateUrl (URL_new no_idna) ''MyApp://callback'' ''custom-scheme''
                    = Inr (success [''myapp''])"
    by simp
  from params [THEN conjunct2, THEN conjunct2, THEN conjunct1, THEN mp, OF parsed]
  have lower: "map ascii_lowercase
                  (takeWhile (\<lambda>c. c \<noteq> CHR '':'') (strip_input ''MyApp://callback''))
                = ''myapp''"
    by simp
  have rejected: "validateUrl (URL_new no_idna) ''callback'' ''custom-scheme''
                    = Inr (error ''Invalid scheme.'')"
    by (rule custom_scheme_params [of "URL_new no_idna" "''callback''" ?url TypeError,
          THEN conjunct2, THEN conjunct1, THEN mp, OF thrown])
  show ?thesis
    by (intro conjI parsed accepted lower thrown rejected)
qed

text \<open>
  C3 as stated fails: the text before the first colon of \<^verbatim>\<open>MyApp://callback\<close> is
  \<^verbatim>\<open>MyApp\<close>, and the params are \<^verbatim>\<open>["myapp"]\<close>.
\<close>

theorem custom_scheme_counterexample:
  "takeWhile (\<lambda>c. c \<noteq> CHR '':'') ''MyApp://callback'' = ''MyApp''
   \<and> validateUrl (URL_new no_idna) ''MyApp://callback'' ''custom-scheme''
       = Inr (success [''myapp''])
   \<and> ''myapp'' \<noteq> ''MyApp''"
  by (intro conjI; code_simp)

text \<open>
  C4. For every input, the netlify kind succeeds with params \<^verbatim>\<open>[input]\<close> and the vercel
  kind succeeds with params \<^verbatim>\<open>["vercel.app", input]\<close>: neither checks the input, neither
  fails, whatever the URL constructor does.
\<close>

theorem netlify_vercel_always_succeed:
  "validateUrl newURL input ''netlify'' = Inr (success [input])
   \<and> validateUrl newURL input ''vercel'' = Inr (success [''vercel.app'', input])"
  by (simp add: validateUrl_netlify validateUrl_vercel)

text \<open>
  C5. For every input and every service kind, when \<^verbatim>\<open>validateUrl\<close> returns success the
  params are not empty.
\<close>

theorem success_params_not_empty:
  "validateUrl newURL input service = Inr (success ps) \<Longrightarrow> ps \<noteq> []"
  using validateUrl_returns [of newURL input service] by auto

text \<open>The hypothesis holds at \<^verbatim>\<open>https://example.com/path\<close> with the generic kind.\<close>

theorem success_params_not_empty_witness:
  "validateUrl (URL_new no_idna) ''https://example.com/path'' ''generic''
     = Inr (success [''example.com''])
   \<and> [''example.com''] \<noteq> []"
proof -
  have h: "validateUrl (URL_new no_idna) ''https://example.com/path'' ''generic''
             = Inr (success [''example.com''])"
    by code_simp
  show ?thesis
    by (intro conjI h success_params_not_empty [OF h])
qed

text \<open>
  C6. The recursion of the generic branch ends: the retried input starts with
  \<^verbatim>\<open>http\<close>, so the retried call makes no further call, and every call of
  \<^verbatim>\<open>validateUrl\<close> makes at most one recursive call. (That \<^verbatim>\<open>validateUrl\<close> is total
  is its termination proof, by the measure that is 0 on inputs starting with \<^verbatim>\<open>http\<close>
  and 1 on the others.)
\<close>

theorem validateUrl_at_most_one_retry:
  "startsWith (''http://'' @ input) ''http''
   \<and> snd (validateUrl_traced newURL (''http://'' @ input) service) = 0
   \<and> snd (validateUrl_traced newURL input service) \<le> 1
   \<and> fst (validateUrl_traced newURL input service) = validateUrl newURL input service"
proof -
  have "snd (validateUrl_traced newURL (''http://'' @ input) service) = 0"
  proof (cases "service = ''generic''")
    case True
    then show ?thesis
      by (simp only: validateUrl_traced_retried) (simp split: sum.splits)
  next
    case False
    then show ?thesis by (simp add: validateUrl_traced_not_generic)
  qed
  then show ?thesis
    by (intro conjI startsWith_http_prefixed validateUrl_traced_snd validateUrl_traced_fst)
qed

text \<open>
  C7. For every input, a service kind other than generic, netlify, vercel and
  custom-scheme gives the error "Unknown type".
\<close>

theorem unknown_service_kind:
  "service \<notin> {''generic'', ''netlify'', ''vercel'', ''custom-scheme''} \<Longrightarrow>
   validateUrl newURL input service = Inr (error ''Unknown type'')"
  by (simp add: validateUrl_unknown)

text \<open>The hypothesis holds for the kind \<^verbatim>\<open>github\<close>.\<close>

theorem unknown_service_kind_witness:
  "''github'' \<notin> {''generic'', ''netlify'', ''vercel'', ''custom-scheme''}
   \<and> validateUrl (URL_new no_idna) ''example.com'' ''github'' = Inr (error ''Unknown type'')"
proof -
  have h: "''github'' \<notin> {''generic'', ''netlify'', ''vercel'', ''custom-scheme''}"
    by simp
  show ?thesis
    by (intro conjI h unknown_service_kind [OF h])
qed

text \<open>
  C8, as amended. Validating again the displayed text (\<^verbatim>\<open>originDisplay\<close>) of a
  successfully validated origin returns the same params
  \<^item> for the generic kind, exactly when the returned text \<open>h\<close> is a stable origin:
    \<open>h\<close> does not start with \<^verbatim>\<open>http\<close>; its host name (what precedes its first colon
    outside square brackets) is not, in lower case, \<^verbatim>\<open>http\<close>, \<^verbatim>\<open>https\<close>,
    \<^verbatim>\<open>ws\<close>, \<^verbatim>\<open>wss\<close> or \<^verbatim>\<open>ftp\<close>; its port is not 80; and the host parser of a
    special URL returns its host name as it is;
  \<^item> for the netlify and vercel kinds, always;
  \<^item> for the custom-scheme kind, exactly when the scheme is not \<^verbatim>\<open>http\<close>,
    \<^verbatim>\<open>https\<close>, \<^verbatim>\<open>ws\<close>, \<^verbatim>\<open>wss\<close> or \<^verbatim>\<open>ftp\<close>.
\<close>

theorem revalidation_of_displayed_origin:
  "(validateUrl (URL_new idna) s ''generic'' = Inr (success [h]) \<longrightarrow>
      originDisplay ''generic'' [h] = Some h
      \<and> (validateUrl (URL_new idna) h ''generic'' = Inr (success [h])
           \<longleftrightarrow> stable_origin idna h))
   \<and> (validateUrl newURL s1 ''netlify'' = Inr (success ps1)
        \<and> originDisplay ''netlify'' ps1 = Some shown1 \<longrightarrow>
      validateUrl newURL shown1 ''netlify'' = Inr (success ps1))
   \<and> (validateUrl newURL s2 ''vercel'' = Inr (success ps2)
        \<and> originDisplay ''vercel'' ps2 = Some shown2 \<longrightarrow>
      validateUrl newURL shown2 ''vercel'' = Inr (success ps2))
   \<and> (validateUrl (URL_new idna) s3 ''custom-scheme'' = Inr (success ps3)
        \<and> originDisplay ''custom-scheme'' ps3 = Some shown3 \<longrightarrow>
      (validateUrl (URL_new idna) shown3 ''custom-scheme'' = Inr (success ps3)
         \<longleftrightarrow> ps3 \<notin> {[''http''], [''https''], [''ws''], [''wss''], [''ftp'']}))"
proof -
  have generic: "validateUrl (URL_new idna) s ''generic'' = Inr (success [h]) \<longrightarrow>
      originDisplay ''generic'' [h] = Some h
      \<and> (validateUrl (URL_new idna) h ''generic'' = Inr (success [h])
           \<longleftrightarrow> stable_origin idna h)"
    using validated_origin_stable_iff [of idna s h] by (simp add: originDisplay_def index_def)
  have netlify: "validateUrl newURL s1 ''netlify'' = Inr (success ps1)
        \<and> originDisplay ''netlify'' ps1 = Some shown1 \<longrightarrow>
      validateUrl newURL shown1 ''netlify'' = Inr (success ps1)"
    by (intro impI, elim conjE, rule netlify_redisplayed) assumption+
  have vercel: "validateUrl newURL s2 ''vercel'' = Inr (success ps2)
        \<and> originDisplay ''vercel'' ps2 = Some shown2 \<longrightarrow>
      validateUrl newURL shown2 ''vercel'' = Inr (success ps2)"
    by (intro impI, elim conjE, rule vercel_redisplayed) assumption+
  have custom: "validateUrl (URL_new idna) s3 ''custom-scheme'' = Inr (success ps3)
        \<and> originDisplay ''custom-scheme'' ps3 = Some shown3 \<longrightarrow>
      (validateUrl (URL_new idna) shown3 ''custom-scheme'' = Inr (success ps3)
         \<longleftrightarrow> ps3 \<notin> {[''http''], [''https''], [''ws''], [''wss''], [''ftp'']})"
    by (intro impI, elim conjE, rule custom_scheme_redisplayed_iff) assumption+
  show ?thesis
    by (rule conjI [OF generic conjI [OF netlify conjI [OF vercel custom]]])
qed

text \<open>
  The hypotheses hold at \<^verbatim>\<open>https://Example.com:8443/login\<close> for the generic kind,
  whose result \<^verbatim>\<open>example.com:8443\<close> is a stable origin, at \<^verbatim>\<open>mysite\<close> for netlify,
  at \<^verbatim>\<open>myproj\<close> for vercel and at \<^verbatim>\<open>MyApp://callback\<close> for the custom-scheme
  kind.
\<close>

theorem revalidation_of_displayed_origin_witness:
  "validateUrl (URL_new no_idna) ''https://Example.com:8443/login'' ''generic''
     = Inr (success [''example.com:8443''])
   \<and> stable_origin no_idna ''example.com:8443''
   \<and> validateUrl (URL_new no_idna) ''example.com:8443'' ''generic''
       = Inr (success [''example.com:8443''])
   \<and> validateUrl (URL_new no_idna) ''mysite'' ''netlify'' = Inr (success [''mysite''])
   \<and> originDisplay ''netlify'' [''mysite''] = Some ''mysite''
   \<and> validateUrl (URL_new no_idna) ''myproj'' ''vercel''
       = Inr (success [''vercel.app'', ''myproj''])
   \<and> originDisplay ''vercel'' [''vercel.app'', ''myproj''] = Some ''myproj''
   \<and> validateUrl (URL_new no_idna) ''MyApp://callback'' ''custom-scheme''
       = Inr (success [''myapp''])
   \<and> originDisplay ''custom-scheme'' [''myapp''] = Some ''myapp://''
   \<and> [''myapp''] \<notin> {[''http''], [''https''], [''ws''], [''wss''], [''ftp'']}
   \<and> validateUrl (URL_new no_idna) ''myapp://'' ''custom-scheme'' = Inr (success [''myapp''])"
proof -
  have generic: "validateUrl (URL_new no_idna) ''https://Example.com:8443/login'' ''generic''
                   = Inr (success [''example.com:8443''])"
    by code_simp
  have stable: "stable_origin no_idna ''example.com:8443''"
    by code_simp
  have netlify: "validateUrl (URL_new no_idna) ''mysite'' ''netlify''
                   = Inr (success [''mysite''])"
    by code_simp
  have netlify_shown: "originDisplay ''netlify'' [''mysite''] = Some ''mysite''"
    by code_simp
  have vercel: "validateUrl (URL_new no_idna) ''myproj'' ''vercel''
                  = Inr (success [''vercel.app'', ''myproj''])"
    by code_simp
  have vercel_shown: "originDisplay ''vercel'' [''vercel.app'', ''myproj''] = Some ''myproj''"
    by code_simp
  have custom: "validateUrl (URL_new no_idna) ''MyApp://callback'' ''custom-scheme''
                  = Inr (success [''myapp''])"
    by code_simp
  have custom_shown: "originDisplay ''custom-scheme'' [''myapp''] = Some ''myapp://''"
    by code_simp
  have not_special: "[''myapp''] \<notin> {[''http''], [''https''], [''ws''], [''wss''], [''ftp'']}"
    by simp
  note again = revalidation_of_displayed_origin
    [where idna = no_idna and s = "''https://Example.com:8443/login''"
       and h = "''example.com:8443''" and newURL = "URL_new no_idna"
       and ?s1.0 = "''mysite''" and ?ps1.0 = "[''mysite'']" and ?shown1.0 = "''mysite''"
       and ?s2.0 = "''myproj''" and ?ps2.0 = "[''vercel.app'', ''myproj'']"
       and ?shown2.0 = "''myproj''"
       and ?s3.0 = "''MyApp://callback''" and ?ps3.0 = "[''myapp'']"
       and ?shown3.0 = "''myapp://''"]
  have generic_again: "validateUrl (URL_new no_idna) ''example.com:8443'' ''generic''
                         = Inr (success [''example.com:8443''])"
    by (rule again [THEN conjunct1, THEN mp, OF generic, THEN conjunct2, THEN iffD2, OF stable])
  have custom_again: "validateUrl (URL_new no_idna) ''myapp://'' ''custom-scheme''
                        = Inr (success [''myapp''])"
    by (rule again [THEN conjunct2, THEN conjunct2, THEN conjunct2, THEN mp,
          OF conjI [OF custom custom_shown], THEN iffD2, OF not_special])
  show ?thesis
    by (intro conjI generic stable generic_again netlify netlify_shown vercel vercel_shown
        custom custom_shown not_special custom_again)
qed

text \<open>
  C8 as stated fails: \<^verbatim>\<open>https://httpbin.org\<close> is accepted with params
  \<^verbatim>\<open>["httpbin.org"]\<close>, and \<^verbatim>\<open>httpbin.org\<close> is rejected, because it has no scheme and
  starts with \<^verbatim>\<open>http\<close>, so that it is not retried. It fails in other ways too: a
  port 80 kept from another scheme is dropped by the retry; a host that is the name of a
  special scheme is read as that scheme; the host of a URL whose scheme is not special
  keeps its upper-case letters; and a special scheme followed by \<^verbatim>\<open>://\<close> and nothing
  else has no host.
\<close>

theorem revalidation_counterexample:
  "validateUrl (URL_new no_idna) ''https://httpbin.org'' ''generic''
     = Inr (success [''httpbin.org''])
   \<and> validateUrl (URL_new no_idna) ''httpbin.org'' ''generic'' = Inr (error ''Invalid URL.'')
   \<and> validateUrl (URL_new no_idna) ''https://example.com:80'' ''generic''
       = Inr (success [''example.com:80''])
   \<and> validateUrl (URL_new no_idna) ''example.com:80'' ''generic''
       = Inr (success [''example.com''])
   \<and> validateUrl (URL_new no_idna) ''http://ws:3000'' ''generic''
       = Inr (success [''ws:3000''])
   \<and> validateUrl (URL_new no_idna) ''ws:3000'' ''generic'' = Inr (success [''0.0.11.184''])
   \<and> validateUrl (URL_new no_idna) ''foo://Ex.com'' ''generic'' = Inr (success [''Ex.com''])
   \<and> validateUrl (URL_new no_idna) ''Ex.com'' ''generic'' = Inr (success [''ex.com''])
   \<and> validateUrl (URL_new no_idna) ''http://x'' ''custom-scheme'' = Inr (success [''http''])
   \<and> originDisplay ''custom-scheme'' [''http''] = Some ''http://''
   \<and> validateUrl (URL_new no_idna) ''http://'' ''custom-scheme''
       = Inr (error ''Invalid scheme.'')"
  by (intro conjI; code_simp)

text \<open>
  C10, as amended. No exception leaves \<^verbatim>\<open>validateUrl\<close>: whatever the URL
  constructor throws or returns, for every input and every service kind the function
  returns an error object or a success object. An exception thrown in a \<^verbatim>\<open>try\<close>
  block, by the constructor (a parse failure) or by the block itself, is caught
  \<^item> in the custom-scheme kind, where it becomes the error \<^verbatim>\<open>Invalid scheme.\<close>;
  \<^item> in the generic kind, where it becomes the error \<^verbatim>\<open>Invalid URL.\<close> when the
    input starts with \<^verbatim>\<open>http\<close>, and otherwise the result is that of validating the
    input with \<^verbatim>\<open>http://\<close> prepended, an error or a success.
\<close>

theorem validateUrl_catches_failures:
  "((\<exists>m. validateUrl newURL input service = Inr (error m))
      \<or> (\<exists>ps. validateUrl newURL input service = Inr (success ps)))
   \<and> (newURL input = Inl e \<longrightarrow>
        custom_scheme_try newURL input = Inl e \<and> generic_try newURL input = Inl e)
   \<and> (custom_scheme_try newURL input = Inl e \<longrightarrow>
        validateUrl newURL input ''custom-scheme'' = Inr (error ''Invalid scheme.''))
   \<and> (generic_try newURL input = Inl e \<and> startsWith input ''http'' \<longrightarrow>
        validateUrl newURL input ''generic'' = Inr (error ''Invalid URL.''))
   \<and> (generic_try newURL input = Inl e \<and> \<not> startsWith input ''http'' \<longrightarrow>
        validateUrl newURL input ''generic''
          = validateUrl newURL (''http://'' @ input) ''generic'')"
proof -
  have returns: "(\<exists>m. validateUrl newURL input service = Inr (error m))
      \<or> (\<exists>ps. validateUrl newURL input service = Inr (success ps))"
    using validateUrl_returns [of newURL input service] by blast
  have thrown: "newURL input = Inl e \<longrightarrow>
        custom_scheme_try newURL input = Inl e \<and> generic_try newURL input = Inl e"
    by (simp add: custom_scheme_try_def generic_try_def)
  have custom: "custom_scheme_try newURL input = Inl e \<longrightarrow>
        validateUrl newURL input ''custom-scheme'' = Inr (error ''Invalid scheme.'')"
    by (simp add: validateUrl.simps [of newURL input])
  have prefixed: "generic_try newURL input = Inl e \<and> startsWith input ''http'' \<longrightarrow>
        validateUrl newURL input ''generic'' = Inr (error ''Invalid URL.'')"
    by (simp add: validateUrl_generic_unfold)
  have retried: "generic_try newURL input = Inl e \<and> \<not> startsWith input ''http'' \<longrightarrow>
        validateUrl newURL input ''generic''
          = validateUrl newURL (''http://'' @ input) ''generic''"
    by (simp add: validateUrl.simps [of newURL input])
  show ?thesis
    by (rule conjI [OF returns conjI [OF thrown conjI [OF custom conjI [OF prefixed retried]]]])
qed

text \<open>
  The hypotheses hold for the constructor of the URL Standard: \<^verbatim>\<open>not a url\<close> does
  not parse, and is rejected in the custom-scheme kind; \<^verbatim>\<open>http://\<close> does not parse,
  starts with \<^verbatim>\<open>http\<close>, and is rejected in the generic kind; \<^verbatim>\<open>localhost\<close> does not
  parse, does not start with \<^verbatim>\<open>http\<close>, and its result is that of
  \<^verbatim>\<open>http://localhost\<close>, where the \<^verbatim>\<open>try\<close> block throws by itself.
\<close>

theorem validateUrl_catches_failures_witness:
  "URL_new no_idna ''not a url'' = Inl TypeError
   \<and> custom_scheme_try (URL_new no_idna) ''not a url'' = Inl TypeError
   \<and> validateUrl (URL_new no_idna) ''not a url'' ''custom-scheme''
       = Inr (error ''Invalid scheme.'')
   \<and> generic_try (URL_new no_idna) ''http://'' = Inl TypeError
   \<and> startsWith ''http://'' ''http''
   \<and> validateUrl (URL_new no_idna) ''http://'' ''generic'' = Inr (error ''Invalid URL.'')
   \<and> generic_try (URL_new no_idna) ''localhost'' = Inl TypeError
   \<and> \<not> startsWith ''localhost'' ''http''
   \<and> validateUrl (URL_new no_idna) ''localhost'' ''generic''
       = validateUrl (URL_new no_idna) (''http://'' @ ''localhost'') ''generic''
   \<and> generic_try (URL_new no_idna) (''http://'' @ ''localhost'') = Inl (Error ''invalid url'')
   \<and> validateUrl (URL_new no_idna) (''http://'' @ ''localhost'') ''generic''
       = Inr (error ''Invalid URL.'')"
proof -
  have no_parse: "URL_new no_idna ''not a url'' = Inl TypeError"
    by code_simp
  note custom = validateUrl_catches_failures
    [where newURL = "URL_new no_idna" and input = "''not a url''" and e = TypeError]
  have custom_thrown: "custom_scheme_try (URL_new no_idna) ''not a url'' = Inl TypeError"
    by (rule custom [THEN conjunct2, THEN conjunct1, THEN mp, OF no_parse, THEN conjunct1])
  have custom_caught: "validateUrl (URL_new no_idna) ''not a url'' ''custom-scheme''
                         = Inr (error ''Invalid scheme.'')"
    by (rule custom [THEN conjunct2, THEN conjunct2, THEN conjunct1, THEN mp, OF custom_thrown])
  have empty_host: "generic_try (URL_new no_idna) ''http://'' = Inl TypeError"
    by code_simp
  have prefix: "startsWith ''http://'' ''http''"
    by code_simp
  have prefixed_caught: "validateUrl (URL_new no_idna) ''http://'' ''generic''
                           = Inr (error ''Invalid URL.'')"
    by (rule validateUrl_catches_failures
          [where newURL = "URL_new no_idna" and input = "''http://''" and e = TypeError,
           THEN conjunct2, THEN conjunct2, THEN conjunct2, THEN conjunct1, THEN mp,
           OF conjI [OF empty_host prefix]])
  have no_scheme: "generic_try (URL_new no_idna) ''localhost'' = Inl TypeError"
    by code_simp
  have no_prefix: "\<not> startsWith ''localhost'' ''http''"
    by code_simp
  have retried: "validateUrl (URL_new no_idna) ''localhost'' ''generic''
                   = validateUrl (URL_new no_idna) (''http://'' @ ''localhost'') ''generic''"
    by (rule validateUrl_catches_failures
          [where newURL = "URL_new no_idna" and input = "''localhost''" and e = TypeError,
           THEN conjunct2, THEN conjunct2, THEN conjunct2, THEN conjunct2, THEN mp,
           OF conjI [OF no_scheme no_prefix]])
  have bare_host: "generic_try (URL_new no_idna) (''http://'' @ ''localhost'')
                     = Inl (Error ''invalid url'')"
    by code_simp
  have prefix': "startsWith (''http://'' @ ''localhost'') ''http''"
    by code_simp
  have retried_caught: "validateUrl (URL_new no_idna) (''http://'' @ ''localhost'') ''generic''
                          = Inr (error ''Invalid URL.'')"
    by (rule validateUrl_catches_failures
          [where newURL = "URL_new no_idna" and input = "''http://'' @ ''localhost''"
             and e = "Error ''invalid url''",
           THEN conjunct2, THEN conjunct2, THEN conjunct2, THEN conjunct1, THEN mp,
           OF conjI [OF bare_host prefix']])
  show ?thesis
    by (intro conjI no_parse custom_thrown custom_caught empty_host prefix prefixed_caught
        no_scheme no_prefix retried bare_host retried_caught)
qed

text \<open>
  C10 as stated fails in its middle clause: not every parse failure becomes a returned
  error value. \<^verbatim>\<open>example.com\<close> does not parse, the exception is caught, and the
  generic kind returns a success, from the retry with \<^verbatim>\<open>http://\<close> prepended.
\<close>

theorem parse_failure_counterexample:
  "URL_new no_idna ''example.com'' = Inl TypeError
   \<and> generic_try (URL_new no_idna) ''example.com'' = Inl TypeError
   \<and> validateUrl (URL_new no_idna) ''example.com'' ''generic''
       = Inr (success [''example.com''])"
  by (intro conjI; code_simp)

end
